theory Spec2Isabelle
  imports Complex_Main "HOL-Library.Multiset"
begin

section \<open>JavaScript values used by the deadlines table\<close>

text \<open>
  The comparison callback of \<^verbatim>\<open>sortDeadlines\<close> computes a JavaScript number. The numbers
  it can compute are differences of time values (integral milliseconds, or NaN for an
  invalid date), differences of \<^verbatim>\<open>Number(boolean)\<close>, and the result of
  \<^verbatim>\<open>localeCompare\<close>. Only the sign of the result and whether it is NaN are read by
  \<^verbatim>\<open>Array.prototype.sort\<close>; a difference of two integral doubles has the sign of the
  exact difference, so the model computes with exact integers and one extra value NaN.
\<close>

datatype jsnum = NaN | Num int

fun jsnum_sub :: "jsnum \<Rightarrow> jsnum \<Rightarrow> jsnum" where
  "jsnum_sub (Num a) (Num b) = Num (a - b)"
| "jsnum_sub _ _ = NaN"

fun jsnum_neg :: "jsnum \<Rightarrow> jsnum" where
  "jsnum_neg (Num a) = Num (- a)"
| "jsnum_neg NaN = NaN"

text \<open>\<^verbatim>\<open>Number(b)\<close> for a boolean \<open>b\<close>.\<close>

definition Number :: "bool \<Rightarrow> jsnum" where
  "Number b = (if b then Num 1 else Num 0)"

text \<open>
  \<^verbatim>\<open>new Date(v).getTime()\<close> for a property value \<open>v\<close> that is a string or absent. The
  parser of date strings belongs to the JavaScript engine and is a parameter \<open>parseDate\<close>
  (a time value, or NaN when the string does not parse); an absent property is
  \<^verbatim>\<open>undefined\<close>, and \<^verbatim>\<open>new Date(undefined)\<close> is an invalid date.
\<close>

definition getTime :: "(string \<Rightarrow> jsnum) \<Rightarrow> string option \<Rightarrow> jsnum" where
  "getTime parseDate v = (case v of None \<Rightarrow> NaN | Some s \<Rightarrow> parseDate s)"

text \<open>\<^verbatim>\<open>v ?? ""\<close> for an optional string.\<close>

definition orEmpty :: "string option \<Rightarrow> string" where
  "orEmpty v = (case v of None \<Rightarrow> [] | Some s \<Rightarrow> s)"

section \<open>Array.prototype.sort\<close>

text \<open>
  \<^verbatim>\<open>SortCompare\<close> of ECMA-262: the value returned by the callback, with NaN read as 0.
\<close>

definition SortCompare :: "('a \<Rightarrow> 'a \<Rightarrow> jsnum) \<Rightarrow> 'a \<Rightarrow> 'a \<Rightarrow> int" where
  "SortCompare comparefn a b = (case comparefn a b of NaN \<Rightarrow> 0 | Num v \<Rightarrow> v)"

text \<open>
  The sort itself is the engine's. ECMA-262 fixes its result only for a consistent
  callback, so the model follows the algorithm of V8 (\<^verbatim>\<open>array-sort.tq\<close>) for an array of
  fewer than 64 elements: the run at the front is counted and, when it is strictly
  descending, reversed; each remaining element is then put where a binary search over the
  sorted front places it. Longer arrays are cut into such runs and merged, which is not
  followed here: for them the model is the engine's sort when the callback is consistent,
  where every conforming engine returns the one stable ordering.
\<close>

text \<open>
  The loop of \<^verbatim>\<open>CountAndMakeRun\<close>: how many of the elements after the second continue the
  run (not smaller than their predecessor in an ascending run, smaller in a descending one).
\<close>

fun countRun :: "('a \<Rightarrow> 'a \<Rightarrow> jsnum) \<Rightarrow> bool \<Rightarrow> 'a \<Rightarrow> 'a list \<Rightarrow> nat" where
  "countRun comparefn isDescending previousElement [] = 0"
| "countRun comparefn isDescending previousElement (currentElement # rest) =
     (let order = SortCompare comparefn currentElement previousElement
      in if (if isDescending then 0 \<le> order else order < 0) then 0
         else Suc (countRun comparefn isDescending currentElement rest))"

text \<open>
  \<^verbatim>\<open>CountAndMakeRun(0, length)\<close>: the length of the run at the front, and the array with
  that run reversed when it is descending.
\<close>

fun CountAndMakeRun :: "('a \<Rightarrow> 'a \<Rightarrow> jsnum) \<Rightarrow> 'a list \<Rightarrow> nat \<times> 'a list" where
  "CountAndMakeRun comparefn [] = (0, [])"
| "CountAndMakeRun comparefn [a] = (1, [a])"
| "CountAndMakeRun comparefn (elementHigh # elementLow # rest) =
     (let order = SortCompare comparefn elementLow elementHigh;
          isDescending = (order < 0);
          runLength = 2 + countRun comparefn isDescending elementLow rest;
          workArray = elementHigh # elementLow # rest
      in if isDescending
         then (runLength, rev (take runLength workArray) @ drop runLength workArray)
         else (runLength, workArray))"

text \<open>
  The search loop of \<^verbatim>\<open>BinaryInsertionSort\<close> over the sorted front \<open>work\<close>; \<open>mid\<close> is
  \<^verbatim>\<open>left + ((right - left) >> 1)\<close>, below \<open>right\<close> and so inside \<open>work\<close>.
\<close>

function binarySearch ::
  "('a \<Rightarrow> 'a \<Rightarrow> jsnum) \<Rightarrow> 'a \<Rightarrow> 'a list \<Rightarrow> nat \<Rightarrow> nat \<Rightarrow> nat" where
  "binarySearch comparefn pivot work left right =
     (if left < right then
        (let mid = left + (right - left) div 2
         in if SortCompare comparefn pivot (work ! mid) < 0
            then binarySearch comparefn pivot work left mid
            else binarySearch comparefn pivot work (mid + 1) right)
      else left)"
  by pat_completeness auto
termination
  by (relation "measure (\<lambda>(comparefn, pivot, work, left, right). right - left)") auto

declare binarySearch.simps [simp del]

text \<open>
  \<^verbatim>\<open>BinaryInsertionSort\<close>: each element after the sorted front is inserted at the index the
  search returns, the elements from there on sliding up by one. The front is the run and
  is never empty, so the adjustment of \<^verbatim>\<open>start\<close> for an empty front does not arise.
\<close>

fun BinaryInsertionSort :: "('a \<Rightarrow> 'a \<Rightarrow> jsnum) \<Rightarrow> 'a list \<Rightarrow> 'a list \<Rightarrow> 'a list" where
  "BinaryInsertionSort comparefn work [] = work"
| "BinaryInsertionSort comparefn work (pivot # rest) =
     (let left = binarySearch comparefn pivot work 0 (length work)
      in BinaryInsertionSort comparefn (take left work @ pivot # drop left work) rest)"

definition array_sort :: "('a \<Rightarrow> 'a \<Rightarrow> jsnum) \<Rightarrow> 'a list \<Rightarrow> 'a list" where
  "array_sort comparefn items =
     (if length items < 2 then items
      else let (runLength, workArray) = CountAndMakeRun comparefn items
           in BinaryInsertionSort comparefn (take runLength workArray)
                (drop runLength workArray))"

text \<open>
  A consistent callback on a set of values, as far as the sort reads it: comparing the other
  way round flips the sign, and not-greater is transitive.
\<close>

definition consistentOn :: "('a \<Rightarrow> 'a \<Rightarrow> jsnum) \<Rightarrow> 'a set \<Rightarrow> bool" where
  "consistentOn comparefn S \<longleftrightarrow>
     (\<forall>a\<in>S. \<forall>b\<in>S. (SortCompare comparefn a b < 0) = (0 < SortCompare comparefn b a))
     \<and> (\<forall>a\<in>S. \<forall>b\<in>S. \<forall>d\<in>S.
          SortCompare comparefn a b \<le> 0 \<longrightarrow> SortCompare comparefn b d \<le> 0
            \<longrightarrow> SortCompare comparefn a d \<le> 0)"

section \<open>Deadlines.tsx\<close>

record DeadlineResponse =
  deadline_id :: string
  alert_name :: "string option"
  alert_description :: "string option"
  deadline_time :: "string option"
  created_at :: "string option"
  missed :: bool

datatype SortField = AlertName | CreatedAt | DeadlineTime | Missed

datatype SortDir = Asc | Desc

text \<open>
  The callback passed to \<^verbatim>\<open>sort\<close> in \<^verbatim>\<open>sortDeadlines\<close>. \<open>localeCompare\<close> is the
  engine's \<^verbatim>\<open>String.prototype.localeCompare\<close>, a parameter.
\<close>

definition compareDeadlines ::
  "(string \<Rightarrow> jsnum) \<Rightarrow> (string \<Rightarrow> string \<Rightarrow> int) \<Rightarrow> SortField \<Rightarrow> SortDir
     \<Rightarrow> DeadlineResponse \<Rightarrow> DeadlineResponse \<Rightarrow> jsnum" where
  "compareDeadlines parseDate localeCompare field dir left right =
     (let comparison =
        (case field of
           DeadlineTime \<Rightarrow>
             jsnum_sub (getTime parseDate (deadline_time left))
                       (getTime parseDate (deadline_time right))
         | CreatedAt \<Rightarrow>
             jsnum_sub (getTime parseDate (created_at left))
                       (getTime parseDate (created_at right))
         | Missed \<Rightarrow> jsnum_sub (Number (missed left)) (Number (missed right))
         | AlertName \<Rightarrow>
             Num (localeCompare (orEmpty (alert_name left)) (orEmpty (alert_name right))))
      in if dir = Desc then jsnum_neg comparison else comparison)"

text \<open>
  The value the callback reads from a record for a field, the record's sort key: the time
  value of a date field, the number of \<open>missed\<close>, or the name.
\<close>

definition sortKey :: "(string \<Rightarrow> jsnum) \<Rightarrow> SortField \<Rightarrow> DeadlineResponse \<Rightarrow> jsnum + string" where
  "sortKey parseDate field d =
     (case field of
        DeadlineTime \<Rightarrow> Inl (getTime parseDate (deadline_time d))
      | CreatedAt \<Rightarrow> Inl (getTime parseDate (created_at d))
      | Missed \<Rightarrow> Inl (Number (missed d))
      | AlertName \<Rightarrow> Inr (orEmpty (alert_name d)))"

definition sortDeadlines ::
  "(string \<Rightarrow> jsnum) \<Rightarrow> (string \<Rightarrow> string \<Rightarrow> int) \<Rightarrow> DeadlineResponse list
     \<Rightarrow> SortField \<Rightarrow> SortDir \<Rightarrow> DeadlineResponse list" where
  "sortDeadlines parseDate localeCompare deadlines field dir =
     array_sort (compareDeadlines parseDate localeCompare field dir) deadlines"

subsection \<open>The component\<close>

text \<open>
  The component instance: the route parameters it reads and its three pieces of local
  state, with the initial values given to \<^verbatim>\<open>useState\<close>.
\<close>

record route_params =
  dagId :: "string option"
  runId :: "string option"

record component =
  params :: route_params
  sortField :: SortField
  sortDir :: SortDir
  showMissedOnly :: bool

definition mount :: "route_params \<Rightarrow> component" where
  "mount p = \<lparr>params = p, sortField = DeadlineTime, sortDir = Asc, showMissedOnly = False\<rparr>"

text \<open>
  The argument of the data hook \<^verbatim>\<open>useDeadlinesServiceGetDagRunDeadlines\<close>: the two route
  parameters, each defaulting to the empty string.
\<close>

definition queryArgs :: "component \<Rightarrow> string \<times> string" where
  "queryArgs c = (orEmpty (dagId (params c)), orEmpty (runId (params c)))"

definition handleSort :: "SortField \<Rightarrow> component \<Rightarrow> component" where
  "handleSort field c =
     (if sortField c = field
      then c\<lparr>sortDir := (if sortDir c = Asc then Desc else Asc)\<rparr>
      else c\<lparr>sortField := field, sortDir := Asc\<rparr>)"

text \<open>The checkbox's \<^verbatim>\<open>onChange\<close>.\<close>

definition setShowMissedOnly :: "bool \<Rightarrow> component \<Rightarrow> component" where
  "setShowMissedOnly checked c = c\<lparr>showMissedOnly := checked\<rparr>"

definition filteredDeadlines :: "bool \<Rightarrow> DeadlineResponse list \<Rightarrow> DeadlineResponse list" where
  "filteredDeadlines showMissed deadlines =
     (if showMissed then filter missed deadlines else deadlines)"

text \<open>
  What the hook hands to the component, and what the component renders: the skeleton, the
  "no deadlines" text, or the checkbox with the table rows in order.
\<close>

record query_result =
  data :: "DeadlineResponse list option"
  isLoading :: bool

datatype rendering =
  Skeleton
| NoDeadlines
| DeadlinesTable bool "DeadlineResponse list"

definition Deadlines ::
  "(string \<Rightarrow> jsnum) \<Rightarrow> (string \<Rightarrow> string \<Rightarrow> int) \<Rightarrow> component \<Rightarrow> query_result
     \<Rightarrow> rendering" where
  "Deadlines parseDate localeCompare c q =
     (if isLoading q then Skeleton
      else case data q of
        None \<Rightarrow> NoDeadlines
      | Some deadlines \<Rightarrow>
          if length deadlines = 0 then NoDeadlines
          else DeadlinesTable (showMissedOnly c)
                 (sortDeadlines parseDate localeCompare
                    (filteredDeadlines (showMissedOnly c) deadlines)
                    (sortField c) (sortDir c)))"

section \<open>The failed-icon plugin of the duration chart\<close>

text \<open>
  The 2D drawing context, as far as the plugin uses it: the drawing state (the properties
  the plugin assigns), the stack \<^verbatim>\<open>save\<close> pushes to and \<^verbatim>\<open>restore\<close> pops from,
  and the current path, which is not part of the drawing state and is not saved. Two logs
  record what the plugin does: every method call and property assignment in order, and
  what \<^verbatim>\<open>fill\<close>, \<^verbatim>\<open>stroke\<close> and \<^verbatim>\<open>fillText\<close> paint with the styles in force.
  Canvas coordinates are JavaScript doubles and are taken as real numbers; the vertical
  axis of a canvas grows downwards.
\<close>

record drawing_state =
  fillStyle :: string
  strokeStyle :: string
  lineWidth :: real
  font :: string
  textAlign :: string
  textBaseline :: string

datatype path_seg = MoveTo real real | LineTo real real | ClosePath

datatype ctx_call =
  Call_save
| Call_restore
| Call_beginPath
| Call_moveTo real real
| Call_lineTo real real
| Call_closePath
| Call_fill
| Call_stroke
| Call_fillText string real real
| Set_fillStyle string
| Set_strokeStyle string
| Set_lineWidth real
| Set_font string
| Set_textAlign string
| Set_textBaseline string

datatype paint =
  FillPath "path_seg list" string
| StrokePath "path_seg list" string real
| FillText string real real drawing_state

record canvas =
  drawingState :: drawing_state
  savedStates :: "drawing_state list"
  currentPath :: "path_seg list"
  calls :: "ctx_call list"
  painted :: "paint list"

definition logCall :: "ctx_call \<Rightarrow> canvas \<Rightarrow> canvas" where
  "logCall k c = c\<lparr>calls := calls c @ [k]\<rparr>"

definition save :: "canvas \<Rightarrow> canvas" where
  "save c = logCall Call_save (c\<lparr>savedStates := drawingState c # savedStates c\<rparr>)"

definition restore :: "canvas \<Rightarrow> canvas" where
  "restore c =
     logCall Call_restore
       (case savedStates c of
          [] \<Rightarrow> c
        | s # ss \<Rightarrow> c\<lparr>drawingState := s, savedStates := ss\<rparr>)"

definition beginPath :: "canvas \<Rightarrow> canvas" where
  "beginPath c = logCall Call_beginPath (c\<lparr>currentPath := []\<rparr>)"

definition moveTo :: "real \<Rightarrow> real \<Rightarrow> canvas \<Rightarrow> canvas" where
  "moveTo px py c = logCall (Call_moveTo px py) (c\<lparr>currentPath := currentPath c @ [MoveTo px py]\<rparr>)"

definition lineTo :: "real \<Rightarrow> real \<Rightarrow> canvas \<Rightarrow> canvas" where
  "lineTo px py c = logCall (Call_lineTo px py) (c\<lparr>currentPath := currentPath c @ [LineTo px py]\<rparr>)"

definition closePath :: "canvas \<Rightarrow> canvas" where
  "closePath c = logCall Call_closePath (c\<lparr>currentPath := currentPath c @ [ClosePath]\<rparr>)"

definition fill :: "canvas \<Rightarrow> canvas" where
  "fill c =
     logCall Call_fill
       (c\<lparr>painted := painted c @ [FillPath (currentPath c) (fillStyle (drawingState c))]\<rparr>)"

definition stroke :: "canvas \<Rightarrow> canvas" where
  "stroke c =
     logCall Call_stroke
       (c\<lparr>painted := painted c @
            [StrokePath (currentPath c) (strokeStyle (drawingState c))
               (lineWidth (drawingState c))]\<rparr>)"

definition fillText :: "string \<Rightarrow> real \<Rightarrow> real \<Rightarrow> canvas \<Rightarrow> canvas" where
  "fillText t px py c =
     logCall (Call_fillText t px py)
       (c\<lparr>painted := painted c @ [FillText t px py (drawingState c)]\<rparr>)"

definition set_fillStyle :: "string \<Rightarrow> canvas \<Rightarrow> canvas" where
  "set_fillStyle v c =
     logCall (Set_fillStyle v) (c\<lparr>drawingState := (drawingState c)\<lparr>fillStyle := v\<rparr>\<rparr>)"

definition set_strokeStyle :: "string \<Rightarrow> canvas \<Rightarrow> canvas" where
  "set_strokeStyle v c =
     logCall (Set_strokeStyle v) (c\<lparr>drawingState := (drawingState c)\<lparr>strokeStyle := v\<rparr>\<rparr>)"

definition set_lineWidth :: "real \<Rightarrow> canvas \<Rightarrow> canvas" where
  "set_lineWidth v c =
     logCall (Set_lineWidth v) (c\<lparr>drawingState := (drawingState c)\<lparr>lineWidth := v\<rparr>\<rparr>)"

definition set_font :: "string \<Rightarrow> canvas \<Rightarrow> canvas" where
  "set_font v c =
     logCall (Set_font v) (c\<lparr>drawingState := (drawingState c)\<lparr>font := v\<rparr>\<rparr>)"

definition set_textAlign :: "string \<Rightarrow> canvas \<Rightarrow> canvas" where
  "set_textAlign v c =
     logCall (Set_textAlign v) (c\<lparr>drawingState := (drawingState c)\<lparr>textAlign := v\<rparr>\<rparr>)"

definition set_textBaseline :: "string \<Rightarrow> canvas \<Rightarrow> canvas" where
  "set_textBaseline v c =
     logCall (Set_textBaseline v)
       (c\<lparr>drawingState := (drawingState c)\<lparr>textBaseline := v\<rparr>\<rparr>)"

text \<open>
  A chart: its drawing context and, per dataset index, the rendered elements, each with a
  position that \<^verbatim>\<open>getProps\<close> returns. \<^verbatim>\<open>getDatasetMeta\<close> gives an entry with no
  elements for an index the chart has no dataset for.
\<close>

datatype element = Element real real

fun getProps :: "element \<Rightarrow> real \<times> real" where
  "getProps (Element px py) = (px, py)"

record chart =
  ctx :: canvas
  metasets :: "element list list"

definition getDatasetMeta :: "chart \<Rightarrow> nat \<Rightarrow> element list" where
  "getDatasetMeta ch i = (if i < length (metasets ch) then metasets ch ! i else [])"

text \<open>
  \<^verbatim>\<open>meta.data[index]\<close>: the element, or \<^verbatim>\<open>undefined\<close> when the index is negative or
  not below the length.
\<close>

definition elementAt :: "element list \<Rightarrow> int \<Rightarrow> element option" where
  "elementAt els index =
     (if 0 \<le> index \<and> nat index < length els then Some (els ! nat index) else None)"

definition ICON_SIZE :: real where
  "ICON_SIZE = 14"

definition ICON_OFFSET :: real where
  "ICON_OFFSET = 4"

text \<open>
  The body of the \<^verbatim>\<open>forEach\<close> callback from \<^verbatim>\<open>getProps\<close> on: the calls on the context,
  in the order of the source. The font is the template string with
  \<^verbatim>\<open>ICON_SIZE * 0.6\<close> printed, which is \<^verbatim>\<open>8.4\<close>.
\<close>

definition drawIcon :: "string \<Rightarrow> element \<Rightarrow> canvas \<Rightarrow> canvas" where
  "drawIcon failedIconColor el c0 =
     (let (px, py) = getProps el;
          iconX = px;
          iconY = py - ICON_OFFSET - ICON_SIZE;
          c1 = save c0;
          half = ICON_SIZE / 2;
          c2 = beginPath c1;
          c3 = moveTo iconX (iconY + ICON_SIZE) c2;
          c4 = lineTo (iconX - half) iconY c3;
          c5 = lineTo (iconX + half) iconY c4;
          c6 = closePath c5;
          c7 = set_fillStyle failedIconColor c6;
          c8 = fill c7;
          c9 = set_strokeStyle failedIconColor c8;
          c10 = set_lineWidth 1 c9;
          c11 = stroke c10;
          c12 = set_fillStyle ''white'' c11;
          c13 = set_font ''bold 8.4px sans-serif'' c12;
          c14 = set_textAlign ''center'' c13;
          c15 = set_textBaseline ''middle'' c14;
          c16 = fillText ''!'' iconX (iconY + ICON_SIZE * 0.55) c15
      in restore c16)"

text \<open>
  The calls that body makes on the context for one element, in order, with the arguments of
  the source.
\<close>

definition iconCalls :: "string \<Rightarrow> element \<Rightarrow> ctx_call list" where
  "iconCalls failedIconColor el =
     (let (px, py) = getProps el;
          iconX = px;
          iconY = py - ICON_OFFSET - ICON_SIZE;
          half = ICON_SIZE / 2
      in [Call_save, Call_beginPath, Call_moveTo iconX (iconY + ICON_SIZE),
          Call_lineTo (iconX - half) iconY, Call_lineTo (iconX + half) iconY, Call_closePath,
          Set_fillStyle failedIconColor, Call_fill, Set_strokeStyle failedIconColor,
          Set_lineWidth 1, Call_stroke, Set_fillStyle ''white'',
          Set_font ''bold 8.4px sans-serif'', Set_textAlign ''center'',
          Set_textBaseline ''middle'', Call_fillText ''!'' iconX (iconY + ICON_SIZE * 0.55),
          Call_restore])"

text \<open>The \<^verbatim>\<open>forEach\<close> callback: an index without an element is skipped.\<close>

definition annotateIndex :: "string \<Rightarrow> element list \<Rightarrow> canvas \<Rightarrow> int \<Rightarrow> canvas" where
  "annotateIndex failedIconColor els c index =
     (case elementAt els index of
        None \<Rightarrow> c
      | Some el \<Rightarrow> drawIcon failedIconColor el c)"

definition afterDatasetsDraw :: "int list \<Rightarrow> string \<Rightarrow> chart \<Rightarrow> chart" where
  "afterDatasetsDraw failedIndices failedIconColor ch =
     (if length failedIndices = 0 then ch
      else let els = getDatasetMeta ch 1 in
        if length els = 0 then ch
        else ch\<lparr>ctx := foldl (annotateIndex failedIconColor els) (ctx ch) failedIndices\<rparr>)"

section \<open>The grid's Bar\<close>

text \<open>
  JavaScript numbers as \<^verbatim>\<open>Bar\<close> computes with them: a finite value, taken as a real
  number (rounding is left out), the two infinities, or NaN. Division by zero does not
  raise: it gives an infinity, or NaN for zero over zero. The zero of the model is the
  positive zero; a negative zero is not represented.
\<close>

datatype jsdouble = Finite real | PosInfinity | NegInfinity | NotANumber

fun js_div :: "jsdouble \<Rightarrow> jsdouble \<Rightarrow> jsdouble" where
  "js_div NotANumber _ = NotANumber"
| "js_div _ NotANumber = NotANumber"
| "js_div (Finite a) (Finite b) =
     (if b \<noteq> 0 then Finite (a / b)
      else if 0 < a then PosInfinity else if a < 0 then NegInfinity else NotANumber)"
| "js_div (Finite a) _ = Finite 0"
| "js_div PosInfinity (Finite b) = (if 0 \<le> b then PosInfinity else NegInfinity)"
| "js_div NegInfinity (Finite b) = (if 0 \<le> b then NegInfinity else PosInfinity)"
| "js_div _ _ = NotANumber"

fun js_mul :: "jsdouble \<Rightarrow> jsdouble \<Rightarrow> jsdouble" where
  "js_mul NotANumber _ = NotANumber"
| "js_mul _ NotANumber = NotANumber"
| "js_mul (Finite a) (Finite b) = Finite (a * b)"
| "js_mul (Finite a) PosInfinity =
     (if 0 < a then PosInfinity else if a < 0 then NegInfinity else NotANumber)"
| "js_mul (Finite a) NegInfinity =
     (if 0 < a then NegInfinity else if a < 0 then PosInfinity else NotANumber)"
| "js_mul PosInfinity (Finite b) =
     (if 0 < b then PosInfinity else if b < 0 then NegInfinity else NotANumber)"
| "js_mul NegInfinity (Finite b) =
     (if 0 < b then NegInfinity else if b < 0 then PosInfinity else NotANumber)"
| "js_mul PosInfinity PosInfinity = PosInfinity"
| "js_mul NegInfinity NegInfinity = PosInfinity"
| "js_mul _ _ = NegInfinity"

text \<open>\<^verbatim>\<open>a > b\<close>, false when either side is NaN.\<close>

fun js_gt :: "jsdouble \<Rightarrow> jsdouble \<Rightarrow> bool" where
  "js_gt NotANumber _ = False"
| "js_gt _ NotANumber = False"
| "js_gt (Finite a) (Finite b) = (b < a)"
| "js_gt PosInfinity PosInfinity = False"
| "js_gt PosInfinity _ = True"
| "js_gt NegInfinity _ = False"
| "js_gt (Finite a) NegInfinity = True"
| "js_gt (Finite a) PosInfinity = False"

definition BAR_HEIGHT :: jsdouble where
  "BAR_HEIGHT = Finite 100"

text \<open>
  \<^verbatim>\<open>barHeightPx\<close> of \<^verbatim>\<open>Bar\<close> (line 52), from the \<^verbatim>\<open>max\<close> prop and the run's duration;
  the failed and deadline icons are placed above it.
\<close>

definition barHeightPx :: "jsdouble \<Rightarrow> jsdouble \<Rightarrow> jsdouble" where
  "barHeightPx max' duration =
     (if js_gt max' (Finite 0) then js_mul (js_div duration max') BAR_HEIGHT else Finite 0)"


section \<open>Engine functions for closed examples\<close>

text \<open>
  The theorems below hold for every date parser and every \<^verbatim>\<open>localeCompare\<close>. Closed
  examples need one of each. \<open>parseIsoUtc\<close> reads the shape
  \<^verbatim>\<open>YYYY-MM-DDTHH:mm:ssZ\<close> of the ECMAScript date-time string format to milliseconds
  since the epoch and gives NaN on anything else; the examples use only strings of that
  shape and strings no engine parses. \<open>ordinalCompare\<close> compares strings by code unit.
\<close>

definition digitValue :: "char \<Rightarrow> int option" where
  "digitValue ch =
     (let n = (of_char ch :: nat) in if 48 \<le> n \<and> n \<le> 57 then Some (int n - 48) else None)"

fun digitsValue :: "int \<Rightarrow> string \<Rightarrow> int option" where
  "digitsValue acc [] = Some acc"
| "digitsValue acc (ch # cs) =
     (case digitValue ch of None \<Rightarrow> None | Some d \<Rightarrow> digitsValue (10 * acc + d) cs)"

definition isLeapYear :: "int \<Rightarrow> bool" where
  "isLeapYear yr = (yr mod 4 = 0 \<and> (yr mod 100 \<noteq> 0 \<or> yr mod 400 = 0))"

definition daysInMonth :: "int \<Rightarrow> int \<Rightarrow> int" where
  "daysInMonth yr mo =
     (if mo = 2 then (if isLeapYear yr then 29 else 28)
      else if mo = 4 \<or> mo = 6 \<or> mo = 9 \<or> mo = 11 then 30 else 31)"

definition daysFromCivil :: "int \<Rightarrow> int \<Rightarrow> int \<Rightarrow> int" where
  "daysFromCivil yr mo dy =
     (let yr' = (if mo \<le> 2 then yr - 1 else yr);
          era = yr' div 400;
          yoe = yr' - era * 400;
          doy = (153 * (if mo > 2 then mo - 3 else mo + 9) + 2) div 5 + dy - 1;
          doe = yoe * 365 + yoe div 4 - yoe div 100 + doy
      in era * 146097 + doe - 719468)"

definition parseIsoUtc :: "string \<Rightarrow> jsnum" where
  "parseIsoUtc s =
     (if length s = 20 \<and> s ! 4 = CHR ''-'' \<and> s ! 7 = CHR ''-'' \<and> s ! 10 = CHR ''T''
         \<and> s ! 13 = CHR '':'' \<and> s ! 16 = CHR '':'' \<and> s ! 19 = CHR ''Z''
      then
        (case (digitsValue 0 (take 4 s), digitsValue 0 (take 2 (drop 5 s)),
               digitsValue 0 (take 2 (drop 8 s)), digitsValue 0 (take 2 (drop 11 s)),
               digitsValue 0 (take 2 (drop 14 s)), digitsValue 0 (take 2 (drop 17 s))) of
           (Some yr, Some mo, Some dy, Some hr, Some mi, Some sc) \<Rightarrow>
             if 1 \<le> mo \<and> mo \<le> 12 \<and> 1 \<le> dy \<and> dy \<le> daysInMonth yr mo
                \<and> (hr \<le> 23 \<or> (hr = 24 \<and> mi = 0 \<and> sc = 0)) \<and> mi \<le> 59 \<and> sc \<le> 59
             then Num ((((daysFromCivil yr mo dy * 24 + hr) * 60 + mi) * 60 + sc) * 1000)
             else NaN
         | _ \<Rightarrow> NaN)
      else NaN)"

fun ordinalCompare :: "string \<Rightarrow> string \<Rightarrow> int" where
  "ordinalCompare [] [] = 0"
| "ordinalCompare [] (b # bs) = - 1"
| "ordinalCompare (a # as) [] = 1"
| "ordinalCompare (a # as) (b # bs) =
     (if (of_char a :: nat) < of_char b then - 1
      else if (of_char b :: nat) < of_char a then 1
      else ordinalCompare as bs)"

text \<open>
  Example inputs: the two records of the specification's end-to-end example (with a creation
  time added), a record whose deadline time does not parse and whose creation time is
  absent, a record created a day later, a record with a given id and deadline time, route
  parameters, and a chart whose second dataset has three rendered points on a context with
  empty logs.
\<close>

definition exampleMissed :: DeadlineResponse where
  "exampleMissed =
     \<lparr>deadline_id = ''1'', alert_name = None, alert_description = None,
      deadline_time = Some ''2024-01-01T00:00:00Z'',
      created_at = Some ''2024-01-01T00:00:00Z'', missed = True\<rparr>"

definition exampleOnTrack :: DeadlineResponse where
  "exampleOnTrack =
     \<lparr>deadline_id = ''2'', alert_name = None, alert_description = None,
      deadline_time = Some ''2024-01-02T00:00:00Z'',
      created_at = Some ''2024-01-01T00:00:00Z'', missed = False\<rparr>"

definition exampleUnparsable :: DeadlineResponse where
  "exampleUnparsable =
     \<lparr>deadline_id = ''3'', alert_name = None, alert_description = None,
      deadline_time = Some ''not-a-date'', created_at = None, missed = False\<rparr>"

definition exampleLate :: DeadlineResponse where
  "exampleLate =
     \<lparr>deadline_id = ''4'', alert_name = None, alert_description = None,
      deadline_time = Some ''2024-01-02T00:00:00Z'',
      created_at = Some ''2024-01-02T00:00:00Z'', missed = False\<rparr>"

definition exampleRecord :: "string \<Rightarrow> string \<Rightarrow> DeadlineResponse" where
  "exampleRecord i t =
     \<lparr>deadline_id = i, alert_name = None, alert_description = None,
      deadline_time = Some t, created_at = None, missed = False\<rparr>"

definition exampleParams :: route_params where
  "exampleParams = \<lparr>dagId = Some ''example_dag'', runId = Some ''run_1''\<rparr>"

definition exampleChart :: chart where
  "exampleChart =
     \<lparr>ctx =
        \<lparr>drawingState =
           \<lparr>fillStyle = ''#336699'', strokeStyle = ''#000000'', lineWidth = 3,
            font = ''10px sans-serif'', textAlign = ''start'', textBaseline = ''alphabetic''\<rparr>,
         savedStates = [], currentPath = [], calls = [], painted = []\<rparr>,
      metasets =
        [[Element 10 80, Element 20 60, Element 30 40],
         [Element 10 90, Element 20 70, Element 30 50]]\<rparr>"

section \<open>The sort: a rearrangement, and a stable sort for a consistent callback\<close>

subsection \<open>Permutation\<close>

lemma mset_BinaryInsertionSort:
  "mset (BinaryInsertionSort c work rest) = mset work + mset rest"
proof (induction rest arbitrary: work)
  case Nil
  then show ?case by simp
next
  case (Cons pivot rest)
  have "mset (take n work @ pivot # drop n work) = add_mset pivot (mset work)" for n
    by (metis append_take_drop_id mset.simps(2) mset_append union_mset_add_mset_right)
  then show ?case by (simp add: Cons Let_def)
qed

lemma mset_rev_take_drop: "mset (rev (take n ys) @ drop n ys) = mset ys"
  by (metis append_take_drop_id mset_append mset_rev)

lemma CountAndMakeRun_mset: "mset (snd (CountAndMakeRun c xs)) = mset xs"
proof (cases xs)
  case Nil
  then show ?thesis by simp
next
  case (Cons eh ys)
  show ?thesis
  proof (cases ys)
    case Nil
    then show ?thesis using Cons by simp
  next
    case (Cons el rest)
    show ?thesis
      unfolding \<open>xs = eh # ys\<close> Cons CountAndMakeRun.simps Let_def
      using mset_rev_take_drop [of _ "eh # el # rest"] by (simp del: take_Suc_Cons drop_Suc_Cons)
  qed
qed

lemma mset_array_sort: "mset (array_sort c xs) = mset xs"
proof (cases "length xs < 2")
  case True
  then show ?thesis by (simp add: array_sort_def)
next
  case False
  obtain n w where cr: "CountAndMakeRun c xs = (n, w)" by (cases "CountAndMakeRun c xs")
  have "mset w = mset xs" using CountAndMakeRun_mset [of c xs] cr by simp
  moreover have "mset (take n w) + mset (drop n w) = mset w"
    by (metis append_take_drop_id mset_append)
  ultimately show ?thesis using False cr
    by (simp add: array_sort_def mset_BinaryInsertionSort)
qed

lemma set_array_sort: "set (array_sort c xs) = set xs"
  using mset_array_sort [of c xs] by (metis set_mset_mset)

subsection \<open>Consistent callbacks\<close>

lemma consistentOn_flip:
  "consistentOn c S \<Longrightarrow> a \<in> S \<Longrightarrow> b \<in> S \<Longrightarrow>
     (SortCompare c a b < 0) = (0 < SortCompare c b a)"
  by (simp add: consistentOn_def)

lemma consistentOn_trans:
  "consistentOn c S \<Longrightarrow> a \<in> S \<Longrightarrow> b \<in> S \<Longrightarrow> d \<in> S \<Longrightarrow>
     SortCompare c a b \<le> 0 \<Longrightarrow> SortCompare c b d \<le> 0 \<Longrightarrow> SortCompare c a d \<le> 0"
  unfolding consistentOn_def by blast

lemma consistentOn_subset: "consistentOn c S \<Longrightarrow> T \<subseteq> S \<Longrightarrow> consistentOn c T"
  unfolding consistentOn_def by blast

lemma consistentOn_not_lt:
  assumes "consistentOn c S" "a \<in> S" "b \<in> S"
  shows "(\<not> SortCompare c a b < 0) = (SortCompare c b a \<le> 0)"
  using consistentOn_flip [OF assms] by auto

lemma consistentOn_le_lt:
  assumes con: "consistentOn c S" and mem: "a \<in> S" "b \<in> S" "d \<in> S"
    and ab: "SortCompare c a b \<le> 0" and bd: "SortCompare c b d < 0"
  shows "SortCompare c a d < 0"
proof (rule ccontr)
  assume "\<not> SortCompare c a d < 0"
  then have da: "SortCompare c d a \<le> 0"
    using consistentOn_not_lt [OF con mem(1) mem(3)] by simp
  have "SortCompare c d b \<le> 0"
    using consistentOn_trans [OF con mem(3) mem(1) mem(2) da ab] .
  moreover have "0 < SortCompare c d b"
    using consistentOn_flip [OF con mem(2) mem(3)] bd by simp
  ultimately show False by simp
qed

lemma consistentOn_lt_le:
  assumes con: "consistentOn c S" and mem: "a \<in> S" "b \<in> S" "d \<in> S"
    and ab: "SortCompare c a b < 0" and bd: "SortCompare c b d \<le> 0"
  shows "SortCompare c a d < 0"
proof (rule ccontr)
  assume "\<not> SortCompare c a d < 0"
  then have da: "SortCompare c d a \<le> 0"
    using consistentOn_not_lt [OF con mem(1) mem(3)] by simp
  have "SortCompare c b a \<le> 0"
    using consistentOn_trans [OF con mem(2) mem(3) mem(1) bd da] .
  moreover have "0 < SortCompare c b a"
    using consistentOn_flip [OF con mem(1) mem(2)] ab by simp
  ultimately show False by simp
qed

subsection \<open>Binary search\<close>

lemma binarySearch_spec:
  "consistentOn c S \<Longrightarrow> set work \<subseteq> S \<Longrightarrow> pivot \<in> S \<Longrightarrow>
   sorted_wrt (\<lambda>x y. SortCompare c x y \<le> 0) work \<Longrightarrow>
   left \<le> right \<Longrightarrow> right \<le> length work \<Longrightarrow>
   (\<forall>y\<in>set (take left work). SortCompare c y pivot \<le> 0) \<Longrightarrow>
   (\<forall>y\<in>set (drop right work). SortCompare c pivot y < 0) \<Longrightarrow>
   (\<forall>y\<in>set (take (binarySearch c pivot work left right) work). SortCompare c y pivot \<le> 0)
   \<and> (\<forall>y\<in>set (drop (binarySearch c pivot work left right) work). SortCompare c pivot y < 0)"
proof (induction c pivot work left right rule: binarySearch.induct)
  case (1 c pivot work left right)
  show ?case
  proof (cases "left < right")
    case False
    then have "binarySearch c pivot work left right = left" "left = right"
      using "1.prems"(5) by (simp_all add: binarySearch.simps)
    then show ?thesis using "1.prems"(7,8) by simp
  next
    case True
    define mid where "mid = left + (right - left) div 2"
    have mid: "left \<le> mid" "mid < right" "mid < length work"
      using True "1.prems"(6) by (simp_all add: mid_def)
    have memS: "work ! mid \<in> S"
      using mid(3) "1.prems"(2) by (meson nth_mem subsetD)
    show ?thesis
    proof (cases "SortCompare c pivot (work ! mid) < 0")
      case lt: True
      have eq: "binarySearch c pivot work left right = binarySearch c pivot work left mid"
        using True lt by (subst binarySearch.simps) (simp add: mid_def Let_def)
      have dr: "drop mid work = work ! mid # drop (Suc mid) work"
        using mid(3) by (simp add: Cons_nth_drop_Suc)
      have "sorted_wrt (\<lambda>x y. SortCompare c x y \<le> 0) (drop mid work)"
        using "1.prems"(4) by (rule sorted_wrt_drop)
      then have above: "\<forall>y\<in>set (drop (Suc mid) work). SortCompare c (work ! mid) y \<le> 0"
        unfolding dr by simp
      have "\<forall>y\<in>set (drop mid work). SortCompare c pivot y < 0"
      proof
        fix y assume y: "y \<in> set (drop mid work)"
        then have yS: "y \<in> S" using "1.prems"(2) by (meson in_set_dropD subsetD)
        from y have "y = work ! mid \<or> y \<in> set (drop (Suc mid) work)"
          unfolding dr by simp
        then show "SortCompare c pivot y < 0"
        proof
          assume "y = work ! mid" then show ?thesis using lt by simp
        next
          assume "y \<in> set (drop (Suc mid) work)"
          then have "SortCompare c (work ! mid) y \<le> 0" using above by simp
          then show ?thesis
            using consistentOn_lt_le [OF "1.prems"(1) "1.prems"(3) memS yS lt] by simp
        qed
      qed
      then show ?thesis
        unfolding eq
        using "1.IH"(1) [OF True mid_def lt "1.prems"(1,2,3,4) mid(1) _ "1.prems"(7)] mid
        by simp
    next
      case ge: False
      have eq: "binarySearch c pivot work left right = binarySearch c pivot work (mid + 1) right"
        using True ge by (subst binarySearch.simps) (simp add: mid_def Let_def)
      have tk: "take (Suc mid) work = take mid work @ [work ! mid]"
        using mid(3) by (simp add: take_Suc_conv_app_nth)
      have "sorted_wrt (\<lambda>x y. SortCompare c x y \<le> 0) (take (Suc mid) work)"
        using "1.prems"(4) by (rule sorted_wrt_take)
      then have below: "\<forall>y\<in>set (take mid work). SortCompare c y (work ! mid) \<le> 0"
        unfolding tk by (simp add: sorted_wrt_append)
      have mp: "SortCompare c (work ! mid) pivot \<le> 0"
        using consistentOn_not_lt [OF "1.prems"(1) "1.prems"(3) memS] ge by simp
      have "\<forall>y\<in>set (take (mid + 1) work). SortCompare c y pivot \<le> 0"
      proof
        fix y assume y: "y \<in> set (take (mid + 1) work)"
        then have yS: "y \<in> S" using "1.prems"(2) by (meson in_set_takeD subsetD)
        from y have "y = work ! mid \<or> y \<in> set (take mid work)"
          using tk by auto
        then show "SortCompare c y pivot \<le> 0"
        proof
          assume "y = work ! mid" then show ?thesis using mp by simp
        next
          assume "y \<in> set (take mid work)"
          then have "SortCompare c y (work ! mid) \<le> 0" using below by simp
          then show ?thesis
            using consistentOn_trans [OF "1.prems"(1) yS memS "1.prems"(3) _ mp] by simp
        qed
      qed
      then show ?thesis
        unfolding eq
        using "1.IH"(2) [OF True mid_def ge "1.prems"(1,2,3,4) _ "1.prems"(6) _ "1.prems"(8)] mid
        by simp
    qed
  qed
qed

lemma binarySearch_whole:
  assumes "consistentOn c S" "set work \<subseteq> S" "pivot \<in> S"
    and "sorted_wrt (\<lambda>x y. SortCompare c x y \<le> 0) work"
  shows "(\<forall>y\<in>set (take (binarySearch c pivot work 0 (length work)) work).
            SortCompare c y pivot \<le> 0)
    \<and> (\<forall>y\<in>set (drop (binarySearch c pivot work 0 (length work)) work).
            SortCompare c pivot y < 0)"
  using binarySearch_spec [OF assms, of 0 "length work"] by simp

subsection \<open>Insertion\<close>

lemma insert_sorted:
  assumes con: "consistentOn c S" and sub: "set work \<subseteq> S" and pm: "pivot \<in> S"
    and srt: "sorted_wrt (\<lambda>x y. SortCompare c x y \<le> 0) work"
  shows "sorted_wrt (\<lambda>x y. SortCompare c x y \<le> 0)
           (take (binarySearch c pivot work 0 (length work)) work
              @ pivot # drop (binarySearch c pivot work 0 (length work)) work)"
proof -
  let ?r = "binarySearch c pivot work 0 (length work)"
  have sp: "\<forall>y\<in>set (take ?r work). SortCompare c y pivot \<le> 0"
    "\<forall>y\<in>set (drop ?r work). SortCompare c pivot y < 0"
    using binarySearch_whole [OF con sub pm srt] by simp_all
  have "sorted_wrt (\<lambda>x y. SortCompare c x y \<le> 0) (take ?r work @ drop ?r work)"
    using srt by simp
  then have parts: "sorted_wrt (\<lambda>x y. SortCompare c x y \<le> 0) (take ?r work)"
    "sorted_wrt (\<lambda>x y. SortCompare c x y \<le> 0) (drop ?r work)"
    "\<forall>x\<in>set (take ?r work). \<forall>y\<in>set (drop ?r work). SortCompare c x y \<le> 0"
    unfolding sorted_wrt_append by simp_all
  have "\<forall>y\<in>set (drop ?r work). SortCompare c pivot y \<le> 0"
    using sp(2) by fastforce
  then show ?thesis
    using sp(1) parts by (simp add: sorted_wrt_append)
qed

lemma insert_filter:
  assumes con: "consistentOn c S" and sub: "set work \<subseteq> S" and pm: "pivot \<in> S"
    and srt: "sorted_wrt (\<lambda>x y. SortCompare c x y \<le> 0) work"
    and cls: "\<And>x y. x \<in> S \<Longrightarrow> y \<in> S \<Longrightarrow> P x \<Longrightarrow> P y \<Longrightarrow> SortCompare c x y = 0"
  shows "filter P (take (binarySearch c pivot work 0 (length work)) work
              @ pivot # drop (binarySearch c pivot work 0 (length work)) work)
           = filter P work @ filter P [pivot]"
proof -
  let ?r = "binarySearch c pivot work 0 (length work)"
  have sp: "\<forall>y\<in>set (drop ?r work). SortCompare c pivot y < 0"
    using binarySearch_whole [OF con sub pm srt] by simp
  have split: "filter P work = filter P (take ?r work) @ filter P (drop ?r work)"
    by (metis append_take_drop_id filter_append)
  show ?thesis
  proof (cases "P pivot")
    case False
    then show ?thesis using split by simp
  next
    case True
    have "\<not> P y" if "y \<in> set (drop ?r work)" for y
    proof
      assume "P y"
      have "y \<in> S" using that sub by (meson in_set_dropD subsetD)
      then have "SortCompare c pivot y = 0" using cls pm True \<open>P y\<close> by simp
      then show False using sp that by fastforce
    qed
    then have "filter P (drop ?r work) = []" by (simp add: filter_empty_conv)
    then show ?thesis using True split by simp
  qed
qed

lemma BinaryInsertionSort_sorted:
  assumes con: "consistentOn c S"
  shows "set work \<subseteq> S \<Longrightarrow> set rest \<subseteq> S \<Longrightarrow>
         sorted_wrt (\<lambda>x y. SortCompare c x y \<le> 0) work \<Longrightarrow>
         sorted_wrt (\<lambda>x y. SortCompare c x y \<le> 0) (BinaryInsertionSort c work rest)"
proof (induction rest arbitrary: work)
  case Nil
  then show ?case by simp
next
  case (Cons pivot rest)
  let ?r = "binarySearch c pivot work 0 (length work)"
  have pm: "pivot \<in> S" and rs: "set rest \<subseteq> S" using Cons.prems(2) by simp_all
  have s1: "sorted_wrt (\<lambda>x y. SortCompare c x y \<le> 0) (take ?r work @ pivot # drop ?r work)"
    using insert_sorted [OF con Cons.prems(1) pm Cons.prems(3)] .
  have "set (take ?r work @ pivot # drop ?r work) = insert pivot (set work)"
    by (metis append_take_drop_id list.simps(15) set_append Un_insert_right)
  then have s2: "set (take ?r work @ pivot # drop ?r work) \<subseteq> S"
    using pm Cons.prems(1) by simp
  show ?case using Cons.IH [OF s2 rs s1] by (simp add: Let_def)
qed

lemma BinaryInsertionSort_filter:
  assumes con: "consistentOn c S"
    and cls: "\<And>x y. x \<in> S \<Longrightarrow> y \<in> S \<Longrightarrow> P x \<Longrightarrow> P y \<Longrightarrow> SortCompare c x y = 0"
  shows "set work \<subseteq> S \<Longrightarrow> set rest \<subseteq> S \<Longrightarrow>
         sorted_wrt (\<lambda>x y. SortCompare c x y \<le> 0) work \<Longrightarrow>
         filter P (BinaryInsertionSort c work rest) = filter P work @ filter P rest"
proof (induction rest arbitrary: work)
  case Nil
  then show ?case by simp
next
  case (Cons pivot rest)
  let ?r = "binarySearch c pivot work 0 (length work)"
  have pm: "pivot \<in> S" and rs: "set rest \<subseteq> S" using Cons.prems(2) by simp_all
  have s1: "sorted_wrt (\<lambda>x y. SortCompare c x y \<le> 0) (take ?r work @ pivot # drop ?r work)"
    using insert_sorted [OF con Cons.prems(1) pm Cons.prems(3)] .
  have "set (take ?r work @ pivot # drop ?r work) = insert pivot (set work)"
    by (metis append_take_drop_id list.simps(15) set_append Un_insert_right)
  then have s2: "set (take ?r work @ pivot # drop ?r work) \<subseteq> S"
    using pm Cons.prems(1) by simp
  have f: "filter P (take ?r work @ pivot # drop ?r work) = filter P work @ filter P [pivot]"
    using insert_filter [OF con Cons.prems(1) pm Cons.prems(3) cls] by simp
  have "filter P (BinaryInsertionSort c work (pivot # rest))
          = filter P (take ?r work @ pivot # drop ?r work) @ filter P rest"
    using Cons.IH [OF s2 rs s1] by (simp add: Let_def)
  then show ?case unfolding f by simp
qed

subsection \<open>The run at the front\<close>

lemma countRun_le: "countRun c d prev rest \<le> length rest"
  by (induction rest arbitrary: prev) (simp_all add: Let_def)

lemma countRun_ascending:
  assumes con: "consistentOn c S"
  shows "prev \<in> S \<Longrightarrow> set rest \<subseteq> S \<Longrightarrow>
         sorted_wrt (\<lambda>x y. SortCompare c x y \<le> 0)
           (prev # take (countRun c False prev rest) rest)"
proof (induction rest arbitrary: prev)
  case Nil
  then show ?case by simp
next
  case (Cons cur rest)
  have cS: "cur \<in> S" and rS: "set rest \<subseteq> S" using Cons.prems(2) by simp_all
  show ?case
  proof (cases "SortCompare c cur prev < 0")
    case True
    then show ?thesis by simp
  next
    case False
    have pc: "SortCompare c prev cur \<le> 0"
      using consistentOn_not_lt [OF con cS Cons.prems(1)] False by simp
    have ih: "sorted_wrt (\<lambda>x y. SortCompare c x y \<le> 0)
                (cur # take (countRun c False cur rest) rest)"
      using Cons.IH [OF cS rS] .
    have "SortCompare c prev z \<le> 0" if "z \<in> set (take (countRun c False cur rest) rest)" for z
    proof -
      have zS: "z \<in> S" using that rS by (meson in_set_takeD subsetD)
      have "SortCompare c cur z \<le> 0" using ih that by simp
      then show ?thesis using consistentOn_trans [OF con Cons.prems(1) cS zS pc] by simp
    qed
    then show ?thesis using False pc ih by simp
  qed
qed

lemma countRun_descending:
  assumes con: "consistentOn c S"
  shows "prev \<in> S \<Longrightarrow> set rest \<subseteq> S \<Longrightarrow>
         sorted_wrt (\<lambda>x y. SortCompare c y x < 0)
           (prev # take (countRun c True prev rest) rest)"
proof (induction rest arbitrary: prev)
  case Nil
  then show ?case by simp
next
  case (Cons cur rest)
  have cS: "cur \<in> S" and rS: "set rest \<subseteq> S" using Cons.prems(2) by simp_all
  show ?case
  proof (cases "0 \<le> SortCompare c cur prev")
    case True
    then show ?thesis by simp
  next
    case False
    then have cp: "SortCompare c cur prev < 0" by simp
    have ih: "sorted_wrt (\<lambda>x y. SortCompare c y x < 0)
                (cur # take (countRun c True cur rest) rest)"
      using Cons.IH [OF cS rS] .
    have "SortCompare c z prev < 0" if "z \<in> set (take (countRun c True cur rest) rest)" for z
    proof -
      have zS: "z \<in> S" using that rS by (meson in_set_takeD subsetD)
      have "SortCompare c z cur < 0" using ih that by simp
      then show ?thesis
        using consistentOn_lt_le [OF con zS cS Cons.prems(1)] cp by simp
    qed
    then show ?thesis using False cp ih by simp
  qed
qed

lemma filter_strict_run:
  assumes "sorted_wrt R xs"
    and "\<And>x y. x \<in> set xs \<Longrightarrow> y \<in> set xs \<Longrightarrow> P x \<Longrightarrow> P y \<Longrightarrow> \<not> R x y"
  shows "filter P (rev xs) = filter P xs"
  using assms
proof (induction xs)
  case Nil
  then show ?case by simp
next
  case (Cons a xs)
  have ih: "filter P (rev xs) = filter P xs"
    using Cons by simp
  show ?case
  proof (cases "P a")
    case False
    then show ?thesis using ih by simp
  next
    case True
    have "\<not> P y" if "y \<in> set xs" for y
    proof
      assume "P y"
      have "R a y" using Cons.prems(1) that by simp
      then show False using Cons.prems(2) [of a y] True \<open>P y\<close> that by simp
    qed
    then have "filter P xs = []" by (simp add: filter_empty_conv)
    then show ?thesis using True ih by simp
  qed
qed

subsection \<open>The whole sort\<close>

lemma array_sort_Cons2:
  "array_sort c (eh # el # rest) =
     (if SortCompare c el eh < 0
      then BinaryInsertionSort c (rev (eh # el # take (countRun c True el rest) rest))
             (drop (countRun c True el rest) rest)
      else BinaryInsertionSort c (eh # el # take (countRun c False el rest) rest)
             (drop (countRun c False el rest) rest))"
proof -
  have tk: "take (2 + countRun c d el rest) (eh # el # rest)
              = eh # el # take (countRun c d el rest) rest" for d
    by simp
  have dr: "drop (2 + countRun c d el rest) (eh # el # rest)
              = drop (countRun c d el rest) rest" for d
    by simp
  have len: "length (eh # el # take (countRun c d el rest) rest) = 2 + countRun c d el rest"
    for d
    using countRun_le [of c d el rest] by simp
  have rt: "take (2 + countRun c True el rest)
              (rev (eh # el # take (countRun c True el rest) rest)
                 @ drop (countRun c True el rest) rest)
            = rev (eh # el # take (countRun c True el rest) rest)"
    using len [of True] by (metis append_eq_conv_conj length_rev)
  have rd: "drop (2 + countRun c True el rest)
              (rev (eh # el # take (countRun c True el rest) rest)
                 @ drop (countRun c True el rest) rest)
            = drop (countRun c True el rest) rest"
    using len [of True] by (metis append_eq_conv_conj length_rev)
  have big: "\<not> length (eh # el # rest) < 2" by simp
  show ?thesis
  proof (cases "SortCompare c el eh < 0")
    case True
    show ?thesis
      unfolding array_sort_def CountAndMakeRun.simps Let_def
      by (simp only: big True if_True if_False tk dr rt rd prod.case)
  next
    case False
    show ?thesis
      unfolding array_sort_def CountAndMakeRun.simps Let_def
      by (simp only: big False if_True if_False tk dr prod.case)
  qed
qed

lemma array_sort_short: "length xs < 2 \<Longrightarrow> array_sort c xs = xs"
  by (simp add: array_sort_def)

lemma run_ascending:
  assumes con: "consistentOn c S" and mem: "eh \<in> S" "el \<in> S" "set rest \<subseteq> S"
    and asc: "\<not> SortCompare c el eh < 0"
  shows "sorted_wrt (\<lambda>x y. SortCompare c x y \<le> 0)
           (eh # el # take (countRun c False el rest) rest)"
proof -
  have "set (el # rest) \<subseteq> S" using mem by simp
  from countRun_ascending [OF con mem(1) this] show ?thesis using asc by simp
qed

lemma run_descending:
  assumes con: "consistentOn c S" and mem: "eh \<in> S" "el \<in> S" "set rest \<subseteq> S"
    and desc: "SortCompare c el eh < 0"
  shows "sorted_wrt (\<lambda>x y. SortCompare c y x < 0)
           (eh # el # take (countRun c True el rest) rest)"
proof -
  have "set (el # rest) \<subseteq> S" using mem by simp
  from countRun_descending [OF con mem(1) this] show ?thesis using desc by simp
qed

lemma array_sort_sorted:
  assumes con: "consistentOn c (set xs)"
  shows "sorted_wrt (\<lambda>x y. SortCompare c x y \<le> 0) (array_sort c xs)"
proof (cases xs)
  case Nil
  then show ?thesis by (simp add: array_sort_short)
next
  case (Cons eh ys)
  show ?thesis
  proof (cases ys)
    case Nil
    then show ?thesis using Cons by (simp add: array_sort_short)
  next
    case (Cons el rest)
    have xs: "xs = eh # el # rest" using \<open>xs = eh # ys\<close> Cons by simp
    have mem: "eh \<in> set xs" "el \<in> set xs" "set rest \<subseteq> set xs" using xs by auto
    show ?thesis
    proof (cases "SortCompare c el eh < 0")
      case False
      let ?n = "countRun c False el rest"
      have run: "sorted_wrt (\<lambda>x y. SortCompare c x y \<le> 0) (eh # el # take ?n rest)"
        using run_ascending [OF con mem False] .
      have s1: "set (eh # el # take ?n rest) \<subseteq> set xs"
        using mem by (auto dest: in_set_takeD)
      have s2: "set (drop ?n rest) \<subseteq> set xs"
        using mem by (auto dest: in_set_dropD)
      show ?thesis
        unfolding xs array_sort_Cons2
        using BinaryInsertionSort_sorted [OF con s1 s2 run] False by (simp add: xs)
    next
      case True
      let ?n = "countRun c True el rest"
      have "sorted_wrt (\<lambda>x y. SortCompare c y x < 0) (eh # el # take ?n rest)"
        using run_descending [OF con mem True] .
      then have "sorted_wrt (\<lambda>x y. SortCompare c x y < 0) (rev (eh # el # take ?n rest))"
        unfolding sorted_wrt_rev .
      then have run: "sorted_wrt (\<lambda>x y. SortCompare c x y \<le> 0) (rev (eh # el # take ?n rest))"
        by (rule sorted_wrt_mono_rel [rotated]) simp
      have s1: "set (rev (eh # el # take ?n rest)) \<subseteq> set xs"
        using mem by (auto dest: in_set_takeD)
      have s2: "set (drop ?n rest) \<subseteq> set xs"
        using mem by (auto dest: in_set_dropD)
      show ?thesis
        unfolding xs array_sort_Cons2
        using BinaryInsertionSort_sorted [OF con s1 s2 run] True by (simp add: xs)
    qed
  qed
qed

lemma array_sort_stable:
  assumes con: "consistentOn c (set xs)"
    and cls: "\<And>x y. x \<in> set xs \<Longrightarrow> y \<in> set xs \<Longrightarrow> P x \<Longrightarrow> P y \<Longrightarrow> SortCompare c x y = 0"
  shows "filter P (array_sort c xs) = filter P xs"
proof (cases xs)
  case Nil
  then show ?thesis by (simp add: array_sort_short)
next
  case (Cons eh ys)
  show ?thesis
  proof (cases ys)
    case Nil
    then show ?thesis using Cons by (simp add: array_sort_short)
  next
    case (Cons el rest)
    have xs: "xs = eh # el # rest" using \<open>xs = eh # ys\<close> Cons by simp
    have mem: "eh \<in> set xs" "el \<in> set xs" "set rest \<subseteq> set xs" using xs by auto
    have whole: "filter P (eh # el # take n rest) @ filter P (drop n rest) = filter P xs" for n
    proof -
      have "filter P (take n rest) @ filter P (drop n rest) = filter P rest"
        by (metis append_take_drop_id filter_append)
      then show ?thesis unfolding xs by simp
    qed
    show ?thesis
    proof (cases "SortCompare c el eh < 0")
      case False
      let ?n = "countRun c False el rest"
      have run: "sorted_wrt (\<lambda>x y. SortCompare c x y \<le> 0) (eh # el # take ?n rest)"
        using run_ascending [OF con mem False] .
      have s1: "set (eh # el # take ?n rest) \<subseteq> set xs"
        using mem by (auto dest: in_set_takeD)
      have s2: "set (drop ?n rest) \<subseteq> set xs"
        using mem by (auto dest: in_set_dropD)
      have "filter P (array_sort c xs)
              = filter P (eh # el # take ?n rest) @ filter P (drop ?n rest)"
        unfolding xs array_sort_Cons2
        using BinaryInsertionSort_filter [OF con cls s1 s2 run] False by (simp add: xs)
      then show ?thesis using whole by simp
    next
      case True
      let ?n = "countRun c True el rest"
      have strict: "sorted_wrt (\<lambda>x y. SortCompare c y x < 0) (eh # el # take ?n rest)"
        using run_descending [OF con mem True] .
      then have "sorted_wrt (\<lambda>x y. SortCompare c x y < 0) (rev (eh # el # take ?n rest))"
        unfolding sorted_wrt_rev .
      then have run: "sorted_wrt (\<lambda>x y. SortCompare c x y \<le> 0) (rev (eh # el # take ?n rest))"
        by (rule sorted_wrt_mono_rel [rotated]) simp
      have s0: "set (eh # el # take ?n rest) \<subseteq> set xs"
        using mem by (auto dest: in_set_takeD)
      have s1: "set (rev (eh # el # take ?n rest)) \<subseteq> set xs"
        using s0 by simp
      have s2: "set (drop ?n rest) \<subseteq> set xs"
        using mem by (auto dest: in_set_dropD)
      have rv: "filter P (rev (eh # el # take ?n rest)) = filter P (eh # el # take ?n rest)"
      proof (rule filter_strict_run [OF strict])
        fix x y
        assume "x \<in> set (eh # el # take ?n rest)" "y \<in> set (eh # el # take ?n rest)" "P x" "P y"
        then have "SortCompare c y x = 0" using cls s0 by blast
        then show "\<not> SortCompare c y x < 0" by simp
      qed
      have "filter P (array_sort c xs)
              = filter P (rev (eh # el # take ?n rest)) @ filter P (drop ?n rest)"
        unfolding xs array_sort_Cons2
        using BinaryInsertionSort_filter [OF con cls s1 s2 run] True by (simp add: xs)
      also have "\<dots> = filter P (eh # el # take ?n rest) @ filter P (drop ?n rest)"
        by (simp only: rv)
      also have "\<dots> = filter P xs" by (rule whole)
      finally show ?thesis .
    qed
  qed
qed

subsection \<open>The callback of sortDeadlines\<close>

lemma SortCompare_missed:
  "SortCompare (compareDeadlines pd lc Missed Asc) l r =
     (if missed l then 1 else 0) - (if missed r then 1 else 0)"
  by (simp add: SortCompare_def compareDeadlines_def Number_def)

lemma consistentOn_key:
  assumes "\<And>a b. a \<in> S \<Longrightarrow> b \<in> S \<Longrightarrow> SortCompare c a b = key a - (key b :: int)"
  shows "consistentOn c S"
  unfolding consistentOn_def using assms by auto

lemma consistentOn_missed: "consistentOn (compareDeadlines pd lc Missed Asc) S"
  by (rule consistentOn_key [where key = "\<lambda>d. if missed d then 1 else 0"])
     (simp add: SortCompare_missed)

lemma sorted_missed_split:
  "sorted_wrt (\<lambda>x y. SortCompare (compareDeadlines pd lc Missed Asc) x y \<le> 0) ds \<Longrightarrow>
     ds = filter (\<lambda>d. \<not> missed d) ds @ filter missed ds"
proof (induction ds)
  case Nil
  then show ?case by simp
next
  case (Cons d ds)
  have ih: "ds = filter (\<lambda>d. \<not> missed d) ds @ filter missed ds"
    using Cons by simp
  show ?case
  proof (cases "missed d")
    case False
    then show ?thesis using ih by simp
  next
    case True
    have "missed y" if "y \<in> set ds" for y
    proof (rule ccontr)
      assume "\<not> missed y"
      moreover have "SortCompare (compareDeadlines pd lc Missed Asc) d y \<le> 0"
        using Cons.prems that by simp
      ultimately show False using True by (simp add: SortCompare_missed)
    qed
    then have "filter (\<lambda>d. \<not> missed d) ds = []" "filter missed ds = ds"
      by (simp_all add: filter_empty_conv filter_id_conv)
    then show ?thesis using True by simp
  qed
qed

lemma sortDeadlines_missed_asc:
  "sortDeadlines pd lc ds Missed Asc = filter (\<lambda>d. \<not> missed d) ds @ filter missed ds"
proof -
  let ?c = "compareDeadlines pd lc Missed Asc"
  have con: "consistentOn ?c (set ds)" by (rule consistentOn_missed)
  have "sorted_wrt (\<lambda>x y. SortCompare ?c x y \<le> 0) (array_sort ?c ds)"
    using con by (rule array_sort_sorted)
  then have split: "array_sort ?c ds
      = filter (\<lambda>d. \<not> missed d) (array_sort ?c ds) @ filter missed (array_sort ?c ds)"
    by (rule sorted_missed_split)
  have a: "filter (\<lambda>d. \<not> missed d) (array_sort ?c ds) = filter (\<lambda>d. \<not> missed d) ds"
    by (rule array_sort_stable [OF con]) (simp add: SortCompare_missed)
  have b: "filter missed (array_sort ?c ds) = filter missed ds"
    by (rule array_sort_stable [OF con]) (simp add: SortCompare_missed)
  show ?thesis using split unfolding a b by (simp add: sortDeadlines_def)
qed

text \<open>
  With every sort key a number (no date that fails to parse) and a \<open>localeCompare\<close> that
  orders strings, the callback is consistent and gives 0 on equal keys.
\<close>

lemma SortCompare_key_Num:
  assumes "sortKey pd field a = Inl (Num ta)" and "sortKey pd field b = Inl (Num tb)"
  shows "SortCompare (compareDeadlines pd lc field dir) a b
           = (if dir = Desc then tb - ta else ta - tb)"
  using assms
  by (cases field)
     (auto simp: sortKey_def SortCompare_def compareDeadlines_def)

lemma SortCompare_key_Str:
  "SortCompare (compareDeadlines pd lc AlertName dir) a b
     = (if dir = Desc then - lc (orEmpty (alert_name a)) (orEmpty (alert_name b))
        else lc (orEmpty (alert_name a)) (orEmpty (alert_name b)))"
  by (simp add: SortCompare_def compareDeadlines_def)

lemma sortKey_Num:
  assumes "field \<noteq> AlertName" and "sortKey pd field a \<noteq> Inl NaN"
  obtains t where "sortKey pd field a = Inl (Num t)"
proof -
  obtain v where v: "sortKey pd field a = Inl v"
    using assms(1) by (cases field) (simp_all add: sortKey_def)
  then show ?thesis using assms(2) that by (cases v) simp_all
qed

lemma consistentOn_compareDeadlines:
  assumes nn: "Inl NaN \<notin> sortKey pd field ` S"
    and flip: "\<And>s t. (lc s t < 0) = (0 < lc t s)"
    and trans: "\<And>s t u. lc s t \<le> 0 \<Longrightarrow> lc t u \<le> 0 \<Longrightarrow> lc s u \<le> 0"
  shows "consistentOn (compareDeadlines pd lc field dir) S"
proof (cases "field = AlertName")
  case False
  define key where "key = (\<lambda>d. case sortKey pd field d of Inl (Num t) \<Rightarrow> t | _ \<Rightarrow> 0)"
  have num: "sortKey pd field a = Inl (Num (key a))" if "a \<in> S" for a
  proof -
    have "sortKey pd field a \<noteq> Inl NaN" using nn that by force
    then obtain t where "sortKey pd field a = Inl (Num t)"
      using sortKey_Num [OF False] by blast
    then show ?thesis by (simp add: key_def)
  qed
  show ?thesis
  proof (cases dir)
    case Asc
    show ?thesis
      by (rule consistentOn_key [where key = key])
         (simp add: SortCompare_key_Num [OF num num] Asc)
  next
    case Desc
    show ?thesis
      by (rule consistentOn_key [where key = "\<lambda>d. - key d"])
         (simp add: SortCompare_key_Num [OF num num] Desc)
  qed
next
  case True
  have ge: "(0 \<le> lc s t) = (lc t s \<le> 0)" for s t
    using flip [of s t] by auto
  show ?thesis
  proof (cases dir)
    case Asc
    have sc: "SortCompare (compareDeadlines pd lc AlertName Asc) a b
                = lc (orEmpty (alert_name a)) (orEmpty (alert_name b))" for a b
      by (simp add: SortCompare_key_Str)
    show ?thesis
      unfolding consistentOn_def True Asc sc
    proof (intro conjI ballI impI)
      fix a b
      show "(lc (orEmpty (alert_name a)) (orEmpty (alert_name b)) < 0)
              = (0 < lc (orEmpty (alert_name b)) (orEmpty (alert_name a)))"
        by (rule flip)
    next
      fix a b d
      assume "lc (orEmpty (alert_name a)) (orEmpty (alert_name b)) \<le> 0"
        "lc (orEmpty (alert_name b)) (orEmpty (alert_name d)) \<le> 0"
      then show "lc (orEmpty (alert_name a)) (orEmpty (alert_name d)) \<le> 0"
        by (rule trans)
    qed
  next
    case Desc
    have sc: "SortCompare (compareDeadlines pd lc AlertName Desc) a b
                = - lc (orEmpty (alert_name a)) (orEmpty (alert_name b))" for a b
      by (simp add: SortCompare_key_Str)
    show ?thesis
      unfolding consistentOn_def True Desc sc
    proof (intro conjI ballI impI)
      fix a b
      show "(- lc (orEmpty (alert_name a)) (orEmpty (alert_name b)) < 0)
              = (0 < - lc (orEmpty (alert_name b)) (orEmpty (alert_name a)))"
        using flip [of "orEmpty (alert_name b)" "orEmpty (alert_name a)"] by auto
    next
      fix a b d
      assume "- lc (orEmpty (alert_name a)) (orEmpty (alert_name b)) \<le> 0"
        "- lc (orEmpty (alert_name b)) (orEmpty (alert_name d)) \<le> 0"
      then have "lc (orEmpty (alert_name d)) (orEmpty (alert_name b)) \<le> 0"
        "lc (orEmpty (alert_name b)) (orEmpty (alert_name a)) \<le> 0"
        using ge by simp_all
      then have "lc (orEmpty (alert_name d)) (orEmpty (alert_name a)) \<le> 0"
        by (rule trans)
      then show "- lc (orEmpty (alert_name a)) (orEmpty (alert_name d)) \<le> 0"
        using ge by simp
    qed
  qed
qed

lemma equal_keys_compare_zero:
  assumes nn: "Inl NaN \<notin> sortKey pd field ` S"
    and flip: "\<And>s t. (lc s t < 0) = (0 < lc t s)"
    and mem: "a \<in> S" "b \<in> S"
    and eq: "sortKey pd field a = k" "sortKey pd field b = k"
  shows "SortCompare (compareDeadlines pd lc field dir) a b = 0"
proof (cases "field = AlertName")
  case False
  have "sortKey pd field a \<noteq> Inl NaN" using nn mem(1) by force
  then obtain t where t: "sortKey pd field a = Inl (Num t)"
    using sortKey_Num [OF False] by blast
  then have "sortKey pd field b = Inl (Num t)" using eq by simp
  then show ?thesis using SortCompare_key_Num [OF t, of b t lc dir] by simp
next
  case True
  have z: "lc s s = 0" for s using flip [of s s] by auto
  have "orEmpty (alert_name a) = orEmpty (alert_name b)"
    using eq True by (auto simp: sortKey_def)
  then show ?thesis unfolding True SortCompare_key_Str by (simp add: z)
qed

lemma ordinalCompare_flip: "(ordinalCompare s t < 0) = (0 < ordinalCompare t s)"
  by (induction s t rule: ordinalCompare.induct) auto

lemma ordinalCompare_trans:
  "ordinalCompare s t \<le> 0 \<Longrightarrow> ordinalCompare t u \<le> 0 \<Longrightarrow> ordinalCompare s u \<le> 0"
proof (induction s t arbitrary: u rule: ordinalCompare.induct)
  case 1
  then show ?case by simp
next
  case (2 b bs)
  then show ?case by (cases u) simp_all
next
  case (3 a as)
  then show ?case by simp
next
  case (4 a as b bs)
  show ?case
  proof (cases u)
    case Nil
    then show ?thesis using "4.prems" by simp
  next
    case (Cons e es)
    show ?thesis
      using "4.prems" "4.IH" [of es] unfolding Cons
      by (auto split: if_splits)
  qed
qed


section \<open>Effects of the context operations\<close>

lemma calls_ops:
  "calls (save c) = calls c @ [Call_save]"
  "calls (restore c) = calls c @ [Call_restore]"
  "calls (beginPath c) = calls c @ [Call_beginPath]"
  "calls (moveTo px py c) = calls c @ [Call_moveTo px py]"
  "calls (lineTo px py c) = calls c @ [Call_lineTo px py]"
  "calls (closePath c) = calls c @ [Call_closePath]"
  "calls (fill c) = calls c @ [Call_fill]"
  "calls (stroke c) = calls c @ [Call_stroke]"
  "calls (fillText t px py c) = calls c @ [Call_fillText t px py]"
  "calls (set_fillStyle v c) = calls c @ [Set_fillStyle v]"
  "calls (set_strokeStyle v c) = calls c @ [Set_strokeStyle v]"
  "calls (set_lineWidth w c) = calls c @ [Set_lineWidth w]"
  "calls (set_font v c) = calls c @ [Set_font v]"
  "calls (set_textAlign v c) = calls c @ [Set_textAlign v]"
  "calls (set_textBaseline v c) = calls c @ [Set_textBaseline v]"
  by (simp_all add: save_def restore_def beginPath_def moveTo_def lineTo_def closePath_def
        fill_def stroke_def fillText_def set_fillStyle_def set_strokeStyle_def
        set_lineWidth_def set_font_def set_textAlign_def set_textBaseline_def logCall_def
      split: list.splits)

lemma drawingState_ops:
  "drawingState (save c) = drawingState c"
  "drawingState (restore c) = (case savedStates c of [] \<Rightarrow> drawingState c | s # ss \<Rightarrow> s)"
  "drawingState (beginPath c) = drawingState c"
  "drawingState (moveTo px py c) = drawingState c"
  "drawingState (lineTo px py c) = drawingState c"
  "drawingState (closePath c) = drawingState c"
  "drawingState (fill c) = drawingState c"
  "drawingState (stroke c) = drawingState c"
  "drawingState (fillText t px py c) = drawingState c"
  "drawingState (set_fillStyle v c) = (drawingState c)\<lparr>fillStyle := v\<rparr>"
  "drawingState (set_strokeStyle v c) = (drawingState c)\<lparr>strokeStyle := v\<rparr>"
  "drawingState (set_lineWidth w c) = (drawingState c)\<lparr>lineWidth := w\<rparr>"
  "drawingState (set_font v c) = (drawingState c)\<lparr>font := v\<rparr>"
  "drawingState (set_textAlign v c) = (drawingState c)\<lparr>textAlign := v\<rparr>"
  "drawingState (set_textBaseline v c) = (drawingState c)\<lparr>textBaseline := v\<rparr>"
  by (simp_all add: save_def restore_def beginPath_def moveTo_def lineTo_def closePath_def
        fill_def stroke_def fillText_def set_fillStyle_def set_strokeStyle_def
        set_lineWidth_def set_font_def set_textAlign_def set_textBaseline_def logCall_def
      split: list.splits)

lemma savedStates_ops:
  "savedStates (save c) = drawingState c # savedStates c"
  "savedStates (restore c) = (case savedStates c of [] \<Rightarrow> [] | s # ss \<Rightarrow> ss)"
  "savedStates (beginPath c) = savedStates c"
  "savedStates (moveTo px py c) = savedStates c"
  "savedStates (lineTo px py c) = savedStates c"
  "savedStates (closePath c) = savedStates c"
  "savedStates (fill c) = savedStates c"
  "savedStates (stroke c) = savedStates c"
  "savedStates (fillText t px py c) = savedStates c"
  "savedStates (set_fillStyle v c) = savedStates c"
  "savedStates (set_strokeStyle v c) = savedStates c"
  "savedStates (set_lineWidth w c) = savedStates c"
  "savedStates (set_font v c) = savedStates c"
  "savedStates (set_textAlign v c) = savedStates c"
  "savedStates (set_textBaseline v c) = savedStates c"
  by (simp_all add: save_def restore_def beginPath_def moveTo_def lineTo_def closePath_def
        fill_def stroke_def fillText_def set_fillStyle_def set_strokeStyle_def
        set_lineWidth_def set_font_def set_textAlign_def set_textBaseline_def logCall_def
      split: list.splits)

lemma currentPath_ops:
  "currentPath (save c) = currentPath c"
  "currentPath (restore c) = currentPath c"
  "currentPath (beginPath c) = []"
  "currentPath (moveTo px py c) = currentPath c @ [MoveTo px py]"
  "currentPath (lineTo px py c) = currentPath c @ [LineTo px py]"
  "currentPath (closePath c) = currentPath c @ [ClosePath]"
  "currentPath (fill c) = currentPath c"
  "currentPath (stroke c) = currentPath c"
  "currentPath (fillText t px py c) = currentPath c"
  "currentPath (set_fillStyle v c) = currentPath c"
  "currentPath (set_strokeStyle v c) = currentPath c"
  "currentPath (set_lineWidth w c) = currentPath c"
  "currentPath (set_font v c) = currentPath c"
  "currentPath (set_textAlign v c) = currentPath c"
  "currentPath (set_textBaseline v c) = currentPath c"
  by (simp_all add: save_def restore_def beginPath_def moveTo_def lineTo_def closePath_def
        fill_def stroke_def fillText_def set_fillStyle_def set_strokeStyle_def
        set_lineWidth_def set_font_def set_textAlign_def set_textBaseline_def logCall_def
      split: list.splits)

lemma painted_ops:
  "painted (save c) = painted c"
  "painted (restore c) = painted c"
  "painted (beginPath c) = painted c"
  "painted (moveTo px py c) = painted c"
  "painted (lineTo px py c) = painted c"
  "painted (closePath c) = painted c"
  "painted (fill c) = painted c @ [FillPath (currentPath c) (fillStyle (drawingState c))]"
  "painted (stroke c) =
     painted c @ [StrokePath (currentPath c) (strokeStyle (drawingState c))
                    (lineWidth (drawingState c))]"
  "painted (fillText t px py c) = painted c @ [FillText t px py (drawingState c)]"
  "painted (set_fillStyle v c) = painted c"
  "painted (set_strokeStyle v c) = painted c"
  "painted (set_lineWidth w c) = painted c"
  "painted (set_font v c) = painted c"
  "painted (set_textAlign v c) = painted c"
  "painted (set_textBaseline v c) = painted c"
  by (simp_all add: save_def restore_def beginPath_def moveTo_def lineTo_def closePath_def
        fill_def stroke_def fillText_def set_fillStyle_def set_strokeStyle_def
        set_lineWidth_def set_font_def set_textAlign_def set_textBaseline_def logCall_def
      split: list.splits)

lemma drawIcon_calls: "calls (drawIcon color el c) = calls c @ iconCalls color el"
  by (cases el) (simp add: drawIcon_def iconCalls_def Let_def calls_ops)

lemma drawIcon_drawingState: "drawingState (drawIcon color el c) = drawingState c"
  by (cases el) (simp add: drawIcon_def Let_def drawingState_ops savedStates_ops)

lemma drawIcon_savedStates: "savedStates (drawIcon color el c) = savedStates c"
  by (cases el) (simp add: drawIcon_def Let_def savedStates_ops)

lemma drawIcon_currentPath:
  "currentPath (drawIcon color (Element px py) c) =
     [MoveTo px (py - 4), LineTo (px - 7) (py - 18), LineTo (px + 7) (py - 18), ClosePath]"
  by (simp add: drawIcon_def Let_def currentPath_ops ICON_SIZE_def ICON_OFFSET_def)

lemma drawIcon_painted:
  "painted (drawIcon color (Element px py) c) =
     painted c @
       [FillPath [MoveTo px (py - 4), LineTo (px - 7) (py - 18), LineTo (px + 7) (py - 18),
                  ClosePath] color,
        StrokePath [MoveTo px (py - 4), LineTo (px - 7) (py - 18), LineTo (px + 7) (py - 18),
                    ClosePath] color 1,
        FillText ''!'' px (py - 18 + 77 / 10)
          ((drawingState c)\<lparr>fillStyle := ''white'', strokeStyle := color, lineWidth := 1,
             font := ''bold 8.4px sans-serif'', textAlign := ''center'',
             textBaseline := ''middle''\<rparr>)]"
  by (simp add: drawIcon_def Let_def painted_ops currentPath_ops drawingState_ops
        ICON_SIZE_def ICON_OFFSET_def)

lemma annotateIndex_calls:
  "calls (annotateIndex color els c i) =
     calls c @ concat (map (iconCalls color) (List.map_filter (elementAt els) [i]))"
  by (cases "elementAt els i")
     (simp_all add: annotateIndex_def List.map_filter_simps drawIcon_calls)

lemma foldl_annotateIndex_calls:
  "calls (foldl (annotateIndex color els) c idxs) =
     calls c @ concat (map (iconCalls color) (List.map_filter (elementAt els) idxs))"
proof (induction idxs arbitrary: c)
  case Nil
  then show ?case by (simp add: List.map_filter_simps)
next
  case (Cons i idxs)
  show ?case
    by (cases "elementAt els i")
       (simp_all add: Cons annotateIndex_calls List.map_filter_simps)
qed

lemma foldl_annotateIndex_skip:
  "(\<And>i. i \<in> set idxs \<Longrightarrow> elementAt els i = None) \<Longrightarrow>
     foldl (annotateIndex color els) c idxs = c"
  by (induction idxs arbitrary: c) (simp_all add: annotateIndex_def)

lemma foldl_annotateIndex_drawingState:
  "drawingState (foldl (annotateIndex color els) c idxs) = drawingState c"
  by (induction idxs arbitrary: c)
     (simp_all add: annotateIndex_def drawIcon_drawingState split: option.splits)

lemma foldl_annotateIndex_savedStates:
  "savedStates (foldl (annotateIndex color els) c idxs) = savedStates c"
  by (induction idxs arbitrary: c)
     (simp_all add: annotateIndex_def drawIcon_savedStates split: option.splits)

lemma painted_annotateIndex_mono:
  "set (painted c) \<subseteq> set (painted (annotateIndex color els c i))"
proof (cases "elementAt els i")
  case None
  then show ?thesis by (simp add: annotateIndex_def)
next
  case (Some el)
  then show ?thesis by (cases el) (auto simp: annotateIndex_def drawIcon_painted)
qed

lemma painted_foldl_mono:
  "set (painted c) \<subseteq> set (painted (foldl (annotateIndex color els) c idxs))"
proof (induction idxs arbitrary: c)
  case Nil
  then show ?case by simp
next
  case (Cons i idxs)
  have "set (painted c) \<subseteq> set (painted (annotateIndex color els c i))"
    by (rule painted_annotateIndex_mono)
  also have "\<dots> \<subseteq> set (painted (foldl (annotateIndex color els) (annotateIndex color els c i) idxs))"
    by (rule Cons)
  finally show ?case by simp
qed

lemma elementAt_Nil: "elementAt [] i = None"
  by (simp add: elementAt_def)

lemma map_filter_elementAt_Nil: "List.map_filter (elementAt []) idxs = []"
  by (induction idxs) (simp_all add: List.map_filter_simps elementAt_Nil)

lemma example_meta:
  "getDatasetMeta exampleChart (Suc 0) = [Element 10 90, Element 20 70, Element 30 50]"
  by (simp add: getDatasetMeta_def exampleChart_def)

section \<open>Evaluating the examples\<close>

lemma parse_jan1: "parseIsoUtc ''2024-01-01T00:00:00Z'' = Num 1704067200000"
  by code_simp

lemma parse_jan2: "parseIsoUtc ''2024-01-02T00:00:00Z'' = Num 1704153600000"
  by code_simp

lemma parse_not_a_date: "parseIsoUtc ''not-a-date'' = NaN"
  by (simp add: parseIsoUtc_def)

lemmas example_defs = exampleMissed_def exampleOnTrack_def exampleUnparsable_def
  exampleLate_def
lemmas sort_eval = sortDeadlines_def compareDeadlines_def SortCompare_def getTime_def
  Number_def orEmpty_def parse_jan1 parse_jan2 parse_not_a_date array_sort_Cons2
  array_sort_short

section \<open>The deadlines table\<close>

text \<open>
  C5. The sort state starts at (deadline time, ascending). A click on the header of the
  active field changes the direction and nothing else, so two clicks in a row on it give
  the state back; a click on another field makes it the active field with the direction
  ascending, whatever the direction was.
\<close>

theorem handleSort_cycle:
  "sortField (mount p) = DeadlineTime \<and> sortDir (mount p) = Asc
   \<and> (sortField c = field \<longrightarrow>
        handleSort field c = c\<lparr>sortDir := (if sortDir c = Asc then Desc else Asc)\<rparr>
        \<and> handleSort field (handleSort field c) = c)
   \<and> (sortField c \<noteq> field \<longrightarrow> handleSort field c = c\<lparr>sortField := field, sortDir := Asc\<rparr>)"
  by (cases "sortDir c") (simp_all add: mount_def handleSort_def)

text \<open>
  On a freshly mounted component: two clicks on the deadline-time header, and a click on the
  status header while the direction is descending.
\<close>

theorem handleSort_cycle_witness:
  "sortField (mount exampleParams) = DeadlineTime
   \<and> handleSort DeadlineTime (mount exampleParams) = (mount exampleParams)\<lparr>sortDir := Desc\<rparr>
   \<and> handleSort DeadlineTime (handleSort DeadlineTime (mount exampleParams)) = mount exampleParams
   \<and> sortField (handleSort DeadlineTime (mount exampleParams)) \<noteq> Missed
   \<and> handleSort Missed (handleSort DeadlineTime (mount exampleParams))
       = (mount exampleParams)\<lparr>sortField := Missed, sortDir := Asc\<rparr>"
  using handleSort_cycle [of exampleParams "mount exampleParams" DeadlineTime]
    handleSort_cycle [of exampleParams "handleSort DeadlineTime (mount exampleParams)" Missed]
  by (simp add: mount_def handleSort_def)

text \<open>
  C3. With the fetched list not empty and loading over, the rows shown with the checkbox
  ticked are exactly the fetched records with \<open>missed\<close> true (as a multiset, so none is
  dropped or repeated, and as a set), and with the checkbox unticked they are all fetched
  records. Ticking the checkbox changes neither the arguments of the data hook nor the sort
  state, so the rows are computed from the list already fetched.
\<close>

theorem Deadlines_showMissedOnly:
  "(deadlines \<noteq> [] \<longrightarrow>
      (\<exists>rows. Deadlines parseDate localeCompare (setShowMissedOnly True c)
                 \<lparr>data = Some deadlines, isLoading = False\<rparr> = DeadlinesTable True rows
         \<and> mset rows = filter_mset missed (mset deadlines)
         \<and> set rows = {d \<in> set deadlines. missed d})
      \<and> (\<exists>rows. Deadlines parseDate localeCompare (setShowMissedOnly False c)
                 \<lparr>data = Some deadlines, isLoading = False\<rparr> = DeadlinesTable False rows
         \<and> mset rows = mset deadlines))
   \<and> filteredDeadlines True deadlines = filter missed deadlines
   \<and> filteredDeadlines False deadlines = deadlines
   \<and> queryArgs (setShowMissedOnly checked c) = queryArgs c
   \<and> sortField (setShowMissedOnly checked c) = sortField c
   \<and> sortDir (setShowMissedOnly checked c) = sortDir c"
  by (simp add: Deadlines_def setShowMissedOnly_def filteredDeadlines_def queryArgs_def
        sortDeadlines_def mset_array_sort set_array_sort)

text \<open>On the two example records with the checkbox ticked.\<close>

theorem Deadlines_showMissedOnly_witness:
  "[exampleMissed, exampleOnTrack] \<noteq> []
   \<and> (\<exists>rows. Deadlines parseIsoUtc ordinalCompare (setShowMissedOnly True (mount exampleParams))
                 \<lparr>data = Some [exampleMissed, exampleOnTrack], isLoading = False\<rparr>
               = DeadlinesTable True rows
         \<and> set rows = {d \<in> set [exampleMissed, exampleOnTrack]. missed d})"
  using Deadlines_showMissedOnly [of "[exampleMissed, exampleOnTrack]" parseIsoUtc ordinalCompare
      "mount exampleParams" True]
  by auto

text \<open>
  C10. With loading over and no data, the component renders the "no deadlines" text, as it
  does for the empty list; whenever it renders the table, the data was present and not
  empty, and the rows are the filter and sort applied to it.
\<close>

theorem Deadlines_absent_data:
  "Deadlines parseDate localeCompare c \<lparr>data = None, isLoading = False\<rparr> = NoDeadlines
   \<and> Deadlines parseDate localeCompare c \<lparr>data = Some [], isLoading = False\<rparr> = NoDeadlines
   \<and> (Deadlines parseDate localeCompare c q = DeadlinesTable checked rows \<longrightarrow>
        (\<exists>deadlines. data q = Some deadlines \<and> deadlines \<noteq> []
           \<and> rows = sortDeadlines parseDate localeCompare
                      (filteredDeadlines (showMissedOnly c) deadlines) (sortField c) (sortDir c)))"
  by (auto simp: Deadlines_def split: if_splits option.splits)

text \<open>A table rendered from a list of one record.\<close>

theorem Deadlines_absent_data_witness:
  "Deadlines parseIsoUtc ordinalCompare (mount exampleParams)
       \<lparr>data = Some [exampleMissed], isLoading = False\<rparr> = DeadlinesTable False [exampleMissed]
   \<and> (\<exists>deadlines. data \<lparr>data = Some [exampleMissed], isLoading = False\<rparr> = Some deadlines
         \<and> deadlines \<noteq> []
         \<and> [exampleMissed] = sortDeadlines parseIsoUtc ordinalCompare
              (filteredDeadlines (showMissedOnly (mount exampleParams)) deadlines)
              (sortField (mount exampleParams)) (sortDir (mount exampleParams)))"
proof -
  have r: "Deadlines parseIsoUtc ordinalCompare (mount exampleParams)
       \<lparr>data = Some [exampleMissed], isLoading = False\<rparr> = DeadlinesTable False [exampleMissed]"
    by (simp add: Deadlines_def mount_def filteredDeadlines_def sortDeadlines_def
          array_sort_short)
  show ?thesis
    using r Deadlines_absent_data [of parseIsoUtc ordinalCompare "mount exampleParams"
        "\<lparr>data = Some [exampleMissed], isLoading = False\<rparr>" False "[exampleMissed]"]
    by simp
qed

text \<open>
  C8. Sorting by \<open>missed\<close> compares the booleans as the numbers 0 and 1, so ascending
  order puts the records that are not missed first, each group in its fetched order. For
  the records 1 (missed, due 2024-01-01) and 2 (not missed, due 2024-01-02), with a date
  parser that reads the two strings as their epoch milliseconds, the freshly mounted
  component shows 1 then 2, and after one click on the status header 2 then 1.
\<close>

theorem sort_by_missed_example:
  assumes "parseDate ''2024-01-01T00:00:00Z'' = Num 1704067200000"
    and "parseDate ''2024-01-02T00:00:00Z'' = Num 1704153600000"
    and "deadline_id r1 = ''1''" and "missed r1"
    and "deadline_time r1 = Some ''2024-01-01T00:00:00Z''"
    and "deadline_id r2 = ''2''" and "\<not> missed r2"
    and "deadline_time r2 = Some ''2024-01-02T00:00:00Z''"
  shows "Deadlines parseDate localeCompare (mount p) \<lparr>data = Some [r1, r2], isLoading = False\<rparr>
           = DeadlinesTable False [r1, r2]
     \<and> Deadlines parseDate localeCompare (handleSort Missed (mount p))
           \<lparr>data = Some [r1, r2], isLoading = False\<rparr>
           = DeadlinesTable False [r2, r1]
     \<and> compareDeadlines parseDate localeCompare Missed Asc left right
           = Num ((if missed left then 1 else 0) - (if missed right then 1 else 0))
     \<and> sortDeadlines parseDate localeCompare deadlines Missed Asc
           = filter (\<lambda>d. \<not> missed d) deadlines @ filter missed deadlines"
proof -
  have a: "Deadlines parseDate localeCompare (mount p) \<lparr>data = Some [r1, r2], isLoading = False\<rparr>
           = DeadlinesTable False [r1, r2]"
    using assms
    by (simp add: Deadlines_def mount_def filteredDeadlines_def sortDeadlines_def
          array_sort_Cons2 compareDeadlines_def SortCompare_def getTime_def)
  have b: "Deadlines parseDate localeCompare (handleSort Missed (mount p))
           \<lparr>data = Some [r1, r2], isLoading = False\<rparr> = DeadlinesTable False [r2, r1]"
    using assms
    by (simp add: Deadlines_def mount_def handleSort_def filteredDeadlines_def
          sortDeadlines_missed_asc)
  have c: "compareDeadlines parseDate localeCompare Missed Asc left right
           = Num ((if missed left then 1 else 0) - (if missed right then 1 else 0))"
    by (simp add: compareDeadlines_def Number_def)
  show ?thesis using a b c sortDeadlines_missed_asc by simp
qed

text \<open>The two example records under \<open>parseIsoUtc\<close>.\<close>

theorem sort_by_missed_example_witness:
  "parseIsoUtc ''2024-01-01T00:00:00Z'' = Num 1704067200000
   \<and> parseIsoUtc ''2024-01-02T00:00:00Z'' = Num 1704153600000
   \<and> deadline_id exampleMissed = ''1'' \<and> missed exampleMissed
   \<and> deadline_time exampleMissed = Some ''2024-01-01T00:00:00Z''
   \<and> deadline_id exampleOnTrack = ''2'' \<and> \<not> missed exampleOnTrack
   \<and> deadline_time exampleOnTrack = Some ''2024-01-02T00:00:00Z''
   \<and> Deadlines parseIsoUtc ordinalCompare (mount exampleParams)
         \<lparr>data = Some [exampleMissed, exampleOnTrack], isLoading = False\<rparr>
       = DeadlinesTable False [exampleMissed, exampleOnTrack]
   \<and> Deadlines parseIsoUtc ordinalCompare (handleSort Missed (mount exampleParams))
         \<lparr>data = Some [exampleMissed, exampleOnTrack], isLoading = False\<rparr>
       = DeadlinesTable False [exampleOnTrack, exampleMissed]"
proof -
  have h: "deadline_id exampleMissed = ''1''" "missed exampleMissed"
    "deadline_time exampleMissed = Some ''2024-01-01T00:00:00Z''"
    "deadline_id exampleOnTrack = ''2''" "\<not> missed exampleOnTrack"
    "deadline_time exampleOnTrack = Some ''2024-01-02T00:00:00Z''"
    by (simp_all add: example_defs)
  show ?thesis
    using sort_by_missed_example [OF parse_jan1 parse_jan2 h, of ordinalCompare exampleParams]
      parse_jan1 parse_jan2 h
    by simp
qed

text \<open>
  C1, as the code has it. Sorting by a date field returns a rearrangement of the records
  for every input and both directions, and no step of it can throw. A record whose field
  is absent or does not parse compares as NaN with every record, which the sort reads as
  equal: it is not ordered as the earliest timestamp.
\<close>

theorem sortDeadlines_unparsable_equal:
  "mset (sortDeadlines parseDate localeCompare deadlines field dir) = mset deadlines
   \<and> (getTime parseDate (deadline_time left) = NaN \<or> getTime parseDate (deadline_time right) = NaN
        \<longrightarrow> SortCompare (compareDeadlines parseDate localeCompare DeadlineTime dir) left right = 0)
   \<and> (getTime parseDate (created_at left) = NaN \<or> getTime parseDate (created_at right) = NaN
        \<longrightarrow> SortCompare (compareDeadlines parseDate localeCompare CreatedAt dir) left right = 0)"
proof -
  have n: "jsnum_sub a b = NaN" if "a = NaN \<or> b = NaN" for a b
    using that by (cases a; cases b) auto
  show ?thesis
    by (auto simp: sortDeadlines_def mset_array_sort SortCompare_def compareDeadlines_def n)
qed

text \<open>The unparsable example record against a record with a good timestamp.\<close>

theorem sortDeadlines_unparsable_equal_witness:
  "getTime parseIsoUtc (deadline_time exampleUnparsable) = NaN
   \<and> SortCompare (compareDeadlines parseIsoUtc ordinalCompare DeadlineTime Asc)
        exampleUnparsable exampleOnTrack = 0
   \<and> getTime parseIsoUtc (created_at exampleUnparsable) = NaN
   \<and> SortCompare (compareDeadlines parseIsoUtc ordinalCompare CreatedAt Desc)
        exampleOnTrack exampleUnparsable = 0"
proof -
  have h: "getTime parseIsoUtc (deadline_time exampleUnparsable) = NaN"
    "getTime parseIsoUtc (created_at exampleUnparsable) = NaN"
    by (simp_all add: getTime_def example_defs parse_not_a_date)
  show ?thesis
    using h
      sortDeadlines_unparsable_equal [of parseIsoUtc ordinalCompare "[]" DeadlineTime Asc
        exampleUnparsable exampleOnTrack]
      sortDeadlines_unparsable_equal [of parseIsoUtc ordinalCompare "[]" DeadlineTime Desc
        exampleOnTrack exampleUnparsable]
    by simp
qed

text \<open>
  C1 as stated fails. Were the unparsable record ordered as the earliest timestamp, it
  would come first in ascending order and last in descending order. It stays where it was:
  behind a record with a good timestamp in ascending order, and ahead of it in descending
  order, for the deadline time (unparsable) and for the creation time (absent).
\<close>

theorem sortDeadlines_unparsable_counterexample:
  "getTime parseIsoUtc (deadline_time exampleUnparsable) = NaN
   \<and> getTime parseIsoUtc (deadline_time exampleOnTrack) = Num 1704153600000
   \<and> sortDeadlines parseIsoUtc ordinalCompare [exampleOnTrack, exampleUnparsable] DeadlineTime Asc
       = [exampleOnTrack, exampleUnparsable]
   \<and> sortDeadlines parseIsoUtc ordinalCompare [exampleUnparsable, exampleOnTrack] DeadlineTime Desc
       = [exampleUnparsable, exampleOnTrack]
   \<and> getTime parseIsoUtc (created_at exampleUnparsable) = NaN
   \<and> getTime parseIsoUtc (created_at exampleOnTrack) = Num 1704067200000
   \<and> sortDeadlines parseIsoUtc ordinalCompare [exampleOnTrack, exampleUnparsable] CreatedAt Asc
       = [exampleOnTrack, exampleUnparsable]
   \<and> sortDeadlines parseIsoUtc ordinalCompare [exampleUnparsable, exampleOnTrack] CreatedAt Desc
       = [exampleUnparsable, exampleOnTrack]"
  by (simp add: sort_eval example_defs)

text \<open>
  C4, as the code has it. When no record of the list has NaN as its sort key (every date
  that is sorted by parses) and \<open>localeCompare\<close> orders strings consistently, sorting is
  stable for every field and both directions: the records with any one sort key occur in
  the output in the order in which they occur in the input.
\<close>

theorem sortDeadlines_stable:
  assumes "Inl NaN \<notin> sortKey parseDate field ` set deadlines"
    and "\<And>s t. (localeCompare s t < 0) = (0 < localeCompare t s)"
    and "\<And>s t u. localeCompare s t \<le> 0 \<Longrightarrow> localeCompare t u \<le> 0
           \<Longrightarrow> localeCompare s u \<le> 0"
  shows "filter (\<lambda>d. sortKey parseDate field d = k)
           (sortDeadlines parseDate localeCompare deadlines field dir)
         = filter (\<lambda>d. sortKey parseDate field d = k) deadlines"
  unfolding sortDeadlines_def
proof (rule array_sort_stable)
  show "consistentOn (compareDeadlines parseDate localeCompare field dir) (set deadlines)"
    using assms by (rule consistentOn_compareDeadlines)
next
  fix x y
  assume "x \<in> set deadlines" "y \<in> set deadlines"
    "sortKey parseDate field x = k" "sortKey parseDate field y = k"
  then show "SortCompare (compareDeadlines parseDate localeCompare field dir) x y = 0"
    by (rule equal_keys_compare_zero [OF assms(1) assms(2)])
qed

text \<open>
  Two records with the same creation time and a third created later, sorted by creation
  time in descending order: the third moves to the front and the two keep their order.
\<close>

theorem sortDeadlines_stable_witness:
  "Inl NaN \<notin> sortKey parseIsoUtc CreatedAt ` set [exampleOnTrack, exampleMissed, exampleLate]
   \<and> sortKey parseIsoUtc CreatedAt exampleOnTrack = Inl (Num 1704067200000)
   \<and> sortKey parseIsoUtc CreatedAt exampleMissed = Inl (Num 1704067200000)
   \<and> sortDeadlines parseIsoUtc ordinalCompare [exampleOnTrack, exampleMissed, exampleLate]
        CreatedAt Desc = [exampleLate, exampleOnTrack, exampleMissed]
   \<and> filter (\<lambda>d. sortKey parseIsoUtc CreatedAt d = Inl (Num 1704067200000))
        (sortDeadlines parseIsoUtc ordinalCompare
           [exampleOnTrack, exampleMissed, exampleLate] CreatedAt Desc)
       = filter (\<lambda>d. sortKey parseIsoUtc CreatedAt d = Inl (Num 1704067200000))
           [exampleOnTrack, exampleMissed, exampleLate]"
proof -
  have k: "sortKey parseIsoUtc CreatedAt exampleOnTrack = Inl (Num 1704067200000)"
    "sortKey parseIsoUtc CreatedAt exampleMissed = Inl (Num 1704067200000)"
    "sortKey parseIsoUtc CreatedAt exampleLate = Inl (Num 1704153600000)"
    by (simp_all add: sortKey_def getTime_def example_defs parse_jan1 parse_jan2)
  have h: "Inl NaN \<notin> sortKey parseIsoUtc CreatedAt
             ` set [exampleOnTrack, exampleMissed, exampleLate]"
    by (simp add: k)
  have s: "sortDeadlines parseIsoUtc ordinalCompare
      [exampleOnTrack, exampleMissed, exampleLate] CreatedAt Desc
      = [exampleLate, exampleOnTrack, exampleMissed]"
    by code_simp
  show ?thesis
    using h k s
      sortDeadlines_stable [OF h ordinalCompare_flip ordinalCompare_trans,
        where k = "Inl (Num 1704067200000)" and dir = Desc]
    by simp
qed

text \<open>
  C4 as stated fails. Seven records, the fifth with an unparsable deadline time and the
  last two with the same deadline time, sorted by deadline time in ascending order: the
  record with id 6 comes out ahead of the record with id 5.
\<close>

theorem sortDeadlines_stable_counterexample:
  "map deadline_id
     (sortDeadlines parseIsoUtc ordinalCompare
        [exampleRecord ''0'' ''2024-01-01T00:00:00Z'',
         exampleRecord ''1'' ''2024-01-01T00:00:00Z'',
         exampleRecord ''2'' ''2024-01-02T00:00:00Z'',
         exampleRecord ''3'' ''2024-01-01T00:00:00Z'',
         exampleRecord ''4'' ''not-a-date'',
         exampleRecord ''5'' ''2024-01-01T00:00:00Z'',
         exampleRecord ''6'' ''2024-01-01T00:00:00Z'']
        DeadlineTime Asc)
     = [''0'', ''1'', ''3'', ''6'', ''2'', ''4'', ''5'']
   \<and> sortKey parseIsoUtc DeadlineTime (exampleRecord ''5'' ''2024-01-01T00:00:00Z'')
       = Inl (Num 1704067200000)
   \<and> sortKey parseIsoUtc DeadlineTime (exampleRecord ''6'' ''2024-01-01T00:00:00Z'')
       = Inl (Num 1704067200000)"
  by code_simp

section \<open>The failed-icon plugin\<close>

text \<open>
  C6. The calls made on the context are the calls of one icon for each failed index that
  has an element in the second dataset, in the order of the indices, and nothing else. With
  no failed index, with no rendered element, or with only indices that have no element
  (negative, or not below the number of elements) the chart is returned as it was. No
  branch of the plugin raises.
\<close>

theorem afterDatasetsDraw_calls:
  "calls (ctx (afterDatasetsDraw failedIndices color ch))
     = calls (ctx ch) @
       concat (map (iconCalls color)
                 (List.map_filter (elementAt (getDatasetMeta ch 1)) failedIndices))
   \<and> afterDatasetsDraw [] color ch = ch
   \<and> (getDatasetMeta ch 1 = [] \<longrightarrow> afterDatasetsDraw failedIndices color ch = ch)
   \<and> ((\<forall>i \<in> set failedIndices. elementAt (getDatasetMeta ch 1) i = None)
        \<longrightarrow> afterDatasetsDraw failedIndices color ch = ch)
   \<and> (index < 0 \<or> int (length els) \<le> index \<longrightarrow> elementAt els index = None)"
proof -
  have a: "calls (ctx (afterDatasetsDraw failedIndices color ch))
     = calls (ctx ch) @
       concat (map (iconCalls color)
                 (List.map_filter (elementAt (getDatasetMeta ch 1)) failedIndices))"
    by (simp add: afterDatasetsDraw_def Let_def foldl_annotateIndex_calls
          map_filter_elementAt_Nil List.map_filter_simps)
  have b: "afterDatasetsDraw [] color ch = ch"
    by (simp add: afterDatasetsDraw_def)
  have c: "getDatasetMeta ch 1 = [] \<longrightarrow> afterDatasetsDraw failedIndices color ch = ch"
    by (simp add: afterDatasetsDraw_def Let_def)
  have d: "(\<forall>i \<in> set failedIndices. elementAt (getDatasetMeta ch 1) i = None)
        \<longrightarrow> afterDatasetsDraw failedIndices color ch = ch"
    by (simp add: afterDatasetsDraw_def Let_def foldl_annotateIndex_skip)
  have e: "index < 0 \<or> int (length els) \<le> index \<longrightarrow> elementAt els index = None"
    by (auto simp: elementAt_def)
  show ?thesis using a b c d e by blast
qed

text \<open>
  On the example chart: index 5 of three points, a chart without datasets, and the indices
  5, 2 and -1, of which only 2 has an element.
\<close>

theorem afterDatasetsDraw_calls_witness:
  "elementAt (getDatasetMeta exampleChart 1) 5 = None
   \<and> afterDatasetsDraw [5] ''#ff0000'' exampleChart = exampleChart
   \<and> getDatasetMeta (exampleChart\<lparr>metasets := []\<rparr>) 1 = []
   \<and> afterDatasetsDraw [2] ''#ff0000'' (exampleChart\<lparr>metasets := []\<rparr>)
       = exampleChart\<lparr>metasets := []\<rparr>
   \<and> int (length [Element 10 90, Element 20 70, Element 30 50]) \<le> 5
   \<and> elementAt [Element 10 90, Element 20 70, Element 30 50] 5 = None
   \<and> calls (ctx (afterDatasetsDraw [5, 2, - 1] ''#ff0000'' exampleChart))
       = iconCalls ''#ff0000'' (Element 30 50)"
proof -
  have h: "\<forall>i \<in> set [5]. elementAt (getDatasetMeta exampleChart 1) i = None"
    by (simp add: example_meta elementAt_def)
  have g: "getDatasetMeta (exampleChart\<lparr>metasets := []\<rparr>) 1 = []"
    by (simp add: getDatasetMeta_def)
  have k: "List.map_filter (elementAt (getDatasetMeta exampleChart 1)) [5, 2, - 1]
             = [Element 30 50]"
    by (simp add: example_meta elementAt_def List.map_filter_simps)
  have n: "calls (ctx exampleChart) = []"
    by (simp add: exampleChart_def)
  show ?thesis
    using h g k n
      afterDatasetsDraw_calls [of "[5]" "''#ff0000''" exampleChart 5
        "[Element 10 90, Element 20 70, Element 30 50]"]
      afterDatasetsDraw_calls [of "[2]" "''#ff0000''" "exampleChart\<lparr>metasets := []\<rparr>"]
      afterDatasetsDraw_calls [of "[5, 2, - 1]" "''#ff0000''" exampleChart]
    by simp
qed

text \<open>
  C7, as the code has it. The plugin leaves the chart's elements alone, and the drawing
  state (fill style, stroke style, line width, font, text alignment, text baseline) and the
  stack of saved states are after the call what they were before it; the same holds after
  each icon, so each icon starts from the state the plugin was called in. The current path
  is not covered by save and restore: after an icon it is that icon's triangle, whatever
  path the context held before.
\<close>

theorem afterDatasetsDraw_restores:
  "drawingState (ctx (afterDatasetsDraw failedIndices color ch)) = drawingState (ctx ch)
   \<and> savedStates (ctx (afterDatasetsDraw failedIndices color ch)) = savedStates (ctx ch)
   \<and> metasets (afterDatasetsDraw failedIndices color ch) = metasets ch
   \<and> drawingState (drawIcon color el c) = drawingState c
   \<and> savedStates (drawIcon color el c) = savedStates c
   \<and> drawingState (annotateIndex color els c index) = drawingState c
   \<and> savedStates (annotateIndex color els c index) = savedStates c
   \<and> currentPath (drawIcon color (Element px py) c)
       = [MoveTo px (py - 4), LineTo (px - 7) (py - 18), LineTo (px + 7) (py - 18), ClosePath]"
  by (simp add: afterDatasetsDraw_def Let_def foldl_annotateIndex_drawingState
        foldl_annotateIndex_savedStates drawIcon_drawingState drawIcon_savedStates
        drawIcon_currentPath annotateIndex_def split: option.splits)

text \<open>
  C7 as stated fails: the context after the call is not the context before it. On the
  example chart the current path is empty before the call and the triangle of the icon
  after it.
\<close>

theorem afterDatasetsDraw_restores_counterexample:
  "currentPath (ctx exampleChart) = []
   \<and> currentPath (ctx (afterDatasetsDraw [2] ''#ff0000'' exampleChart))
       = [MoveTo 30 46, LineTo 23 32, LineTo 37 32, ClosePath]"
  by (simp add: afterDatasetsDraw_def Let_def example_meta annotateIndex_def elementAt_def
        drawIcon_currentPath)
     (simp add: exampleChart_def)

text \<open>
  What the plugin paints for a failed index with an element at \<open>(px, py)\<close>, filled and
  outlined in the given color: the triangle with one vertex at \<open>(px, py - 4)\<close> and a
  horizontal edge from \<open>(px - 7, py - 18)\<close> to \<open>(px + 7, py - 18)\<close>. It is 14 wide, 14
  tall, centered on \<open>px\<close> and ends four units above the point.
\<close>

lemma afterDatasetsDraw_paints_triangle:
  assumes "index \<in> set failedIndices"
    and "elementAt (getDatasetMeta ch 1) index = Some (Element px py)"
  shows "FillPath [MoveTo px (py - 4), LineTo (px - 7) (py - 18), LineTo (px + 7) (py - 18),
                   ClosePath] color
           \<in> set (painted (ctx (afterDatasetsDraw failedIndices color ch)))
     \<and> StrokePath [MoveTo px (py - 4), LineTo (px - 7) (py - 18), LineTo (px + 7) (py - 18),
                    ClosePath] color 1
           \<in> set (painted (ctx (afterDatasetsDraw failedIndices color ch)))
     \<and> (px + 7) - (px - 7) = ICON_SIZE \<and> (py - 4) - (py - 18) = ICON_SIZE
     \<and> py - (py - 4) = ICON_OFFSET"
proof -
  let ?els = "getDatasetMeta ch 1"
  let ?f = "annotateIndex color ?els"
  obtain pre post where sp: "failedIndices = pre @ index # post"
    using assms(1) by (meson split_list)
  have ne: "failedIndices \<noteq> []" "?els \<noteq> []"
    using assms by (auto simp: elementAt_def)
  have out: "ctx (afterDatasetsDraw failedIndices color ch)
               = foldl ?f (?f (foldl ?f (ctx ch) pre) index) post"
    using ne by (simp add: afterDatasetsDraw_def Let_def sp)
  have here: "painted (?f (foldl ?f (ctx ch) pre) index)
      = painted (foldl ?f (ctx ch) pre) @
       [FillPath [MoveTo px (py - 4), LineTo (px - 7) (py - 18), LineTo (px + 7) (py - 18),
                  ClosePath] color,
        StrokePath [MoveTo px (py - 4), LineTo (px - 7) (py - 18), LineTo (px + 7) (py - 18),
                    ClosePath] color 1,
        FillText ''!'' px (py - 18 + 77 / 10)
          ((drawingState (foldl ?f (ctx ch) pre))\<lparr>fillStyle := ''white'', strokeStyle := color,
             lineWidth := 1, font := ''bold 8.4px sans-serif'', textAlign := ''center'',
             textBaseline := ''middle''\<rparr>)]"
    using assms(2) by (simp add: annotateIndex_def drawIcon_painted)
  have sub: "set (painted (?f (foldl ?f (ctx ch) pre) index))
               \<subseteq> set (painted (ctx (afterDatasetsDraw failedIndices color ch)))"
    unfolding out by (rule painted_foldl_mono)
  have "FillPath [MoveTo px (py - 4), LineTo (px - 7) (py - 18), LineTo (px + 7) (py - 18),
                   ClosePath] color \<in> set (painted (?f (foldl ?f (ctx ch) pre) index))"
    and "StrokePath [MoveTo px (py - 4), LineTo (px - 7) (py - 18), LineTo (px + 7) (py - 18),
                    ClosePath] color 1 \<in> set (painted (?f (foldl ?f (ctx ch) pre) index))"
    unfolding here by simp_all
  then show ?thesis using sub by (auto simp: ICON_SIZE_def ICON_OFFSET_def)
qed

text \<open>
  C2. An upward-pointing triangle with its base four units above the point (30, 50) has
  its base at height 46 and its apex at height 32, as the failed icon of the grid has its
  apex at the top. The plugin paints the triangle the other way up: the horizontal edge
  lies at height 32 and the single vertex at height 46, which on a canvas, where the
  vertical coordinate grows downwards, is below the edge.
\<close>

theorem afterDatasetsDraw_triangle_apex_down:
  "elementAt (getDatasetMeta exampleChart 1) 2 = Some (Element 30 50)
   \<and> painted (ctx (afterDatasetsDraw [2] ''#ff0000'' exampleChart))
       = [FillPath [MoveTo 30 46, LineTo 23 32, LineTo 37 32, ClosePath] ''#ff0000'',
          StrokePath [MoveTo 30 46, LineTo 23 32, LineTo 37 32, ClosePath] ''#ff0000'' 1,
          FillText ''!'' 30 (397 / 10)
            \<lparr>fillStyle = ''white'', strokeStyle = ''#ff0000'', lineWidth = 1,
             font = ''bold 8.4px sans-serif'', textAlign = ''center'',
             textBaseline = ''middle''\<rparr>]"
  by (simp add: afterDatasetsDraw_def Let_def example_meta annotateIndex_def elementAt_def
        drawIcon_painted)
     (simp add: exampleChart_def)

section \<open>The bar height\<close>

text \<open>
  \<^verbatim>\<open>barHeightPx\<close> is guarded: it is the duration over \<open>max\<close> times 100 when \<open>max\<close> is
  greater than 0 and 0 otherwise, so for a \<open>max\<close> of 0 no quotient is formed.
\<close>

lemma barHeightPx_guarded:
  "(js_gt max' (Finite 0) \<longrightarrow>
      barHeightPx max' duration = js_mul (js_div duration max') (Finite 100))
   \<and> (\<not> js_gt max' (Finite 0) \<longrightarrow> barHeightPx max' duration = Finite 0)"
  by (simp add: barHeightPx_def BAR_HEIGHT_def)

lemma barHeightPx_finite:
  "barHeightPx (Finite m) (Finite d) = (if 0 < m then Finite (d / m * 100) else Finite 0)"
  by (simp add: barHeightPx_def BAR_HEIGHT_def)


end
